theory Spec2Isabelle
  imports Main
begin

section \<open>The two programs and their environment\<close>

text \<open>
  The program talks to its environment through HTTP requests, the tunnel provider, the
  process environment, the file \<^verbatim>\<open>.env\<close>, the clock and the terminal. The
  model makes the environment explicit: a \<open>world\<close> holds, for every kind of call, the
  answers the environment is going to give (a script indexed by the number of the call),
  how many calls were made so far, the file's content, the clock, and the trace of
  everything the program did. Each function of the source takes the world and returns the
  world it leaves behind.

  The exceptions of the model are those of HTTP requests, of the tunnel provider's
  \<^verbatim>\<open>connect\<close> and \<^verbatim>\<open>disconnect\<close>, of spawning a subprocess, of
  decoding its output, of \<^verbatim>\<open>os.kill\<close> and of \<^verbatim>\<open>int\<close>. Where the
  source has a handler the model takes its branch; where it has none (the subprocesses of
  \<^verbatim>\<open>start_ollama\<close> and \<^verbatim>\<open>run_ollama_commands\<close>, and the
  decoding of their output in the latter) the exception leaves the function.
  \<^verbatim>\<open>open\<close> on \<^verbatim>\<open>.env\<close>, \<^verbatim>\<open>ngrok.set_auth_token\<close>,
  \<^verbatim>\<open>os.system\<close> and \<^verbatim>\<open>print\<close> are taken to return normally.
\<close>

subsection \<open>The environment\<close>

text \<open>
  The answer to one \<^verbatim>\<open>requests.get\<close>: either the call raises (a connection
  error or a timeout, a \<^verbatim>\<open>RequestException\<close>), or a response arrives. Of a
  response the program reads the status code and, for the provider's management API,
  the list \<^verbatim>\<open>[tunnel['public_url'] for tunnel in response.json().get('tunnels', [])]\<close>;
  \<open>None\<close> stands for a body on which that expression raises.
\<close>

datatype http_result = RequestError | Response nat "string list option"

text \<open>
  What the program prints; the texts are the source's, the data they carry is kept. The
  decoded output of a subprocess is a text, kept as the list of its code points.
\<close>

datatype message =
    WaitingForBackend string
  | BackendUp
  | BackendTimeout
  | WatchdogStart string
  | TunnelMissing string
  | UnexpectedStatus nat string
  | WatchdogError
  | TokenNotSet
  | TunnelEstablished string
  | AttemptFailed nat
  | TunnelFailed
  | BackendNotReady
  | PublicUrl string
  | SkippingCurl
  | Reconnecting
  | DisconnectFailed
  | CouldNotRecreate
  | ServiceActive
  | ServiceStopped
  | SystemdCheckFailed
  | KilledServe
  | PkillFailed
  | KillingPid nat "int option"
  | KillFailed nat
  | CheckingPort
  | StillOccupied
  | PortFree
  | StartingOllama
  | ServeIssued
  | ServerReady nat
  | WaitingForServer nat
  | ServerNotReady nat
  | Executing "string list"
  | Output "nat list"
  | NotStarted

datatype event =
    Print message
  | HttpGet string
  | Sleep nat
  | SetAuthToken string
  | Connect nat
  | Disconnect string
  | ReadEnv
  | WriteEnv string
  | System string
  | PortCheck nat
  | Exec "string list"
  | Shell string
  | Lsof nat
  | Kill int

text \<open>The object \<^verbatim>\<open>ngrok.connect\<close> returns; the program reads its public URL only.\<close>

datatype tunnel = NgrokTunnel (public_url: string)

text \<open>
  The answer to spawning a subprocess and waiting for it: the spawn raises, or the
  process runs and leaves a return code, its standard output and its standard error.
  The two outputs are \<^verbatim>\<open>bytes\<close>: a list of characters of eight bits each.
\<close>

datatype exec_result = ExecRaises | Exited int string string

text \<open>
  The answer to \<^verbatim>\<open>lsof -t -i:port\<close>: the call raises, or the process prints
  its output. The call raises when the spawn does, or when the output is not UTF-8 and
  \<^verbatim>\<open>decode\<close> refuses it: the handler of the function takes both before anything
  else is done. The output is kept as the program reads it: \<open>[]\<close> is an empty output,
  and otherwise the list holds the entries of
  \<^verbatim>\<open>stdout.decode().strip().split('\n')\<close> in order, \<open>Some pid\<close> where
  \<^verbatim>\<open>int\<close> accepts the entry and \<open>None\<close> where it raises.
\<close>

datatype lsof_result = LsofRaises | LsofOutput "int option list"

record world =
  clock :: int
  http_script :: "nat \<Rightarrow> http_result \<times> nat"
  http_count :: nat
  connect_script :: "nat \<Rightarrow> tunnel option"
  connect_count :: nat
  disconnect_script :: "nat \<Rightarrow> bool"
  disconnect_count :: nat
  authtoken :: "string option"
  env_file :: string
  port_script :: "nat \<Rightarrow> bool"
  port_count :: nat
  exec_script :: "nat \<Rightarrow> exec_result"
  exec_count :: nat
  lsof_script :: "nat \<Rightarrow> lsof_result"
  lsof_count :: nat
  kill_script :: "nat \<Rightarrow> bool"
  kill_count :: nat
  trace :: "event list"

text \<open>
  \<open>clock\<close> is \<^verbatim>\<open>time.time()\<close> in milliseconds. The \<open>n\<close>-th HTTP request
  is answered by \<open>http_script w n\<close>: the result and the time the request took, in
  milliseconds. The \<open>n\<close>-th \<^verbatim>\<open>ngrok.connect\<close> returns the tunnel
  \<open>connect_script w n\<close>, or raises when that is \<open>None\<close>; the \<open>n\<close>-th
  \<^verbatim>\<open>ngrok.disconnect\<close> raises when \<open>disconnect_script w n\<close> holds.
  \<open>authtoken\<close> is \<^verbatim>\<open>os.getenv('NGROK_AUTHTOKEN')\<close>, and \<open>env_file\<close> the
  content of \<^verbatim>\<open>.env\<close> as text mode presents it. The \<open>n\<close>-th connection attempt
  of \<^verbatim>\<open>is_port_free\<close> finds the port free when \<open>port_script w n\<close> holds; the
  \<open>n\<close>-th subprocess is answered by \<open>exec_script w n\<close>, the \<open>n\<close>-th
  \<^verbatim>\<open>lsof\<close> by \<open>lsof_script w n\<close>, and the \<open>n\<close>-th
  \<^verbatim>\<open>os.kill\<close> raises when \<open>kill_script w n\<close> holds.
\<close>

definition emit :: "event \<Rightarrow> world \<Rightarrow> world" where
  "emit e w = w\<lparr>trace := trace w @ [e]\<rparr>"

definition print :: "message \<Rightarrow> world \<Rightarrow> world" where
  "print m w = emit (Print m) w"

definition sleep :: "nat \<Rightarrow> world \<Rightarrow> world" where
  "sleep secs w = emit (Sleep secs) (w\<lparr>clock := clock w + 1000 * int secs\<rparr>)"

definition requests_get :: "string \<Rightarrow> world \<Rightarrow> http_result \<times> world" where
  "requests_get url w =
     (let (r, ms) = http_script w (http_count w)
      in (r, emit (HttpGet url)
               (w\<lparr>http_count := Suc (http_count w), clock := clock w + int ms\<rparr>)))"

definition ngrok_connect :: "nat \<Rightarrow> world \<Rightarrow> tunnel option \<times> world" where
  "ngrok_connect port w =
     (connect_script w (connect_count w),
      emit (Connect port) (w\<lparr>connect_count := Suc (connect_count w)\<rparr>))"

section \<open>The tunnel supervisor (webui\_setup.py)\<close>

subsection \<open>The configuration file\<close>

text \<open>
  \<^verbatim>\<open>file.readlines()\<close> cuts the content after every newline and keeps the
  newline with its line; a last line without a newline is a line too.
  \<^verbatim>\<open>file.writelines(lines)\<close> writes the lines one after the other and adds
  nothing.
\<close>

fun readlines :: "string \<Rightarrow> string list" where
  "readlines [] = []"
| "readlines (c # cs) =
     (if c = CHR 0x0A then [c] # readlines cs
      else (case readlines cs of [] \<Rightarrow> [[c]] | l # ls \<Rightarrow> (c # l) # ls))"

definition writelines :: "string list \<Rightarrow> string" where
  "writelines lines = concat lines"

definition startswith :: "string \<Rightarrow> string \<Rightarrow> bool" where
  "startswith s p = (take (length p) s = p)"

text \<open>
  Lines 94 to 99 of the source, and again lines 112 to 117: read the lines, drop those
  that start with \<^verbatim>\<open>NGROK_URL=\<close>, append the new line, write all back.
\<close>

definition update_lines :: "string \<Rightarrow> string list \<Rightarrow> string list" where
  "update_lines url lines =
     filter (\<lambda>line. \<not> startswith line ''NGROK_URL='') lines
       @ [''NGROK_URL='' @ url @ [CHR 0x0A]]"

definition update_env_content :: "string \<Rightarrow> string \<Rightarrow> string" where
  "update_env_content url content = writelines (update_lines url (readlines content))"

definition update_env :: "string \<Rightarrow> world \<Rightarrow> world" where
  "update_env url w =
     (let w1 = emit ReadEnv w;
          content = update_env_content url (env_file w1)
      in emit (WriteEnv content) (w1\<lparr>env_file := content\<rparr>))"

subsection \<open>\<^verbatim>\<open>wait_for_backend\<close>\<close>

text \<open>
  The loop runs while less than \<open>timeout\<close> seconds have passed on the clock since the
  function started. A response with status 200 returns \<open>True\<close>; a
  \<^verbatim>\<open>RequestException\<close> is passed over; after either kind of failed probe the
  function sleeps one second. Every round advances the clock by at least that second, so
  the loop ends.
\<close>

function wait_for_backend_loop :: "string \<Rightarrow> int \<Rightarrow> int \<Rightarrow> world \<Rightarrow> bool \<times> world" where
  "wait_for_backend_loop url start timeout w =
     (if clock w - start < 1000 * timeout then
        (case requests_get url w of
           (Response status_code body, w1) \<Rightarrow>
             if status_code = 200 then (True, print BackendUp w1)
             else wait_for_backend_loop url start timeout (sleep 1 w1)
         | (RequestError, w1) \<Rightarrow> wait_for_backend_loop url start timeout (sleep 1 w1))
      else (False, print BackendTimeout w))"
  by pat_completeness auto
termination
  by (relation "measure (\<lambda>(url, start, timeout, w). nat (start + 1000 * timeout - clock w))")
     (auto simp: requests_get_def sleep_def emit_def split: prod.splits)

declare wait_for_backend_loop.simps [simp del]

definition wait_for_backend :: "string \<Rightarrow> int \<Rightarrow> world \<Rightarrow> bool \<times> world" where
  "wait_for_backend url timeout w =
     (let w0 = print (WaitingForBackend url) w
      in wait_for_backend_loop url (clock w0) timeout w0)"

subsection \<open>\<^verbatim>\<open>ngrok_watchdog\<close>\<close>

text \<open>
  One round of the watchdog's loop, the body of its \<^verbatim>\<open>try\<close> block:
  \<open>Some False\<close> is \<^verbatim>\<open>return False\<close>, from the block or from its handler,
  and \<open>None\<close> is falling through to the sleep. The status code of the management API's
  response is not looked at.
\<close>

definition watchdog_check :: "string \<Rightarrow> world \<Rightarrow> bool option \<times> world" where
  "watchdog_check url w =
     (case requests_get ''http://127.0.0.1:4040/api/tunnels'' w of
        (RequestError, w1) \<Rightarrow> (Some False, print WatchdogError w1)
      | (Response api_status None, w1) \<Rightarrow> (Some False, print WatchdogError w1)
      | (Response api_status (Some active_urls), w1) \<Rightarrow>
          if url \<notin> set active_urls then (Some False, print (TunnelMissing url) w1)
          else
            (case requests_get url w1 of
               (RequestError, w2) \<Rightarrow> (Some False, print WatchdogError w2)
             | (Response status_code body, w2) \<Rightarrow>
                 if status_code \<noteq> 200
                 then (Some False, print (UnexpectedStatus status_code url) w2)
                 else (None, w2)))"

text \<open>
  \<^verbatim>\<open>while True\<close>: the loop has no exit of its own, so the function may never
  return; \<open>None\<close> is the run that never returns.
\<close>

partial_function (option) watchdog_loop :: "string \<Rightarrow> world \<Rightarrow> (bool \<times> world) option" where
  "watchdog_loop url w =
     (case watchdog_check url w of
        (Some r, w1) \<Rightarrow> Some (r, w1)
      | (None, w1) \<Rightarrow> watchdog_loop url (sleep 15 w1))"

declare watchdog_loop.simps [code]

definition ngrok_watchdog :: "string \<Rightarrow> world \<Rightarrow> (bool \<times> world) option" where
  "ngrok_watchdog url w = watchdog_loop url (print (WatchdogStart url) w)"

subsection \<open>\<^verbatim>\<open>create_ngrok_tunnel\<close>\<close>

definition max_retries :: nat where
  "max_retries = 5"

definition retry_delay :: nat where
  "retry_delay = 5"

text \<open>
  \<^verbatim>\<open>for attempt in range(max_retries)\<close>: \<open>attempt\<close> counts up from 0 and
  \<open>left\<close> is the number of rounds still to run. A failed attempt is printed and
  followed by the sleep, the last one too.
\<close>

fun connect_loop :: "nat \<Rightarrow> nat \<Rightarrow> world \<Rightarrow> tunnel option \<times> world" where
  "connect_loop attempt 0 w = (None, print TunnelFailed w)"
| "connect_loop attempt (Suc left) w =
     (case ngrok_connect 8080 w of
        (Some t, w1) \<Rightarrow> (Some t, print (TunnelEstablished (public_url t)) w1)
      | (None, w1) \<Rightarrow>
          connect_loop (Suc attempt) left
            (sleep retry_delay (print (AttemptFailed (attempt + 1)) w1)))"

text \<open>\<^verbatim>\<open>if not ngrok_token\<close> holds for a variable that is not set and for an empty one.\<close>

definition create_ngrok_tunnel :: "world \<Rightarrow> tunnel option \<times> world" where
  "create_ngrok_tunnel w =
     (case authtoken w of
        None \<Rightarrow> (None, print TokenNotSet w)
      | Some ngrok_token \<Rightarrow>
          if ngrok_token = [] then (None, print TokenNotSet w)
          else connect_loop 0 max_retries (emit (SetAuthToken ngrok_token) w))"

subsection \<open>\<^verbatim>\<open>main\<close>\<close>

text \<open>
  \<^verbatim>\<open>ngrok.disconnect\<close> in its \<^verbatim>\<open>try\<close> block: an exception is printed
  and passed over.
\<close>

definition ngrok_disconnect :: "string \<Rightarrow> world \<Rightarrow> world" where
  "ngrok_disconnect url w =
     (let raised = disconnect_script w (disconnect_count w);
          w1 = emit (Disconnect url) (w\<lparr>disconnect_count := Suc (disconnect_count w)\<rparr>)
      in if raised then print DisconnectFailed w1 else w1)"

text \<open>
  One round of the loop at the end of \<^verbatim>\<open>main\<close>. The result says whether the
  loop goes on (\<open>True\<close>) or was left by \<^verbatim>\<open>break\<close> (\<open>False\<close>); \<open>None\<close> is a
  watchdog that never returns. The tunnel a reconnection returns is bound to
  \<^verbatim>\<open>tunnel\<close> and not read again: the assignment to \<^verbatim>\<open>public_url\<close> in
  line 132 is a comment.
\<close>

definition supervise_step :: "string \<Rightarrow> world \<Rightarrow> (bool \<times> world) option" where
  "supervise_step url w =
     (case ngrok_watchdog url w of
        None \<Rightarrow> None
      | Some (tunnel_ok, w1) \<Rightarrow>
          if \<not> tunnel_ok then
            (let w2 = ngrok_disconnect url (print Reconnecting w1)
             in case create_ngrok_tunnel w2 of
                  (None, w3) \<Rightarrow> Some (False, print CouldNotRecreate w3)
                | (Some t, w3) \<Rightarrow> Some (True, w3))
          else Some (True, w1))"

partial_function (option) supervise :: "string \<Rightarrow> world \<Rightarrow> world option" where
  "supervise url w =
     (case supervise_step url w of
        None \<Rightarrow> None
      | Some (continue, w1) \<Rightarrow> if continue then supervise url w1 else Some w1)"

declare supervise.simps [code]

text \<open>The state after \<open>n\<close> rounds of that loop, when the loop gets that far.\<close>

fun supervise_rounds :: "nat \<Rightarrow> string \<Rightarrow> world \<Rightarrow> (bool \<times> world) option" where
  "supervise_rounds 0 url w = Some (True, w)"
| "supervise_rounds (Suc n) url w =
     (case supervise_rounds n url w of
        None \<Rightarrow> None
      | Some (continue, w1) \<Rightarrow> if continue then supervise_step url w1 else None)"

definition curl_commands :: "string \<Rightarrow> world \<Rightarrow> world" where
  "curl_commands url w =
     emit (System (''curl '' @ url @ '' | pygmentize -l console || true''))
       (emit (System ''curl http://localhost:8080 | pygmentize -l console || true'')
          (emit (System ''curl http://localhost:11434 | pygmentize -l console || true'') w))"

text \<open>
  \<^verbatim>\<open>main\<close> of webui\_setup.py returns \<open>Some\<close> of the world it leaves when
  it returns, and \<open>None\<close> when it runs forever.
\<close>

definition webui_main :: "world \<Rightarrow> world option" where
  "webui_main w =
     (case wait_for_backend ''http://localhost:8080'' 30 w of
        (backend_ready, w1) \<Rightarrow>
          if \<not> backend_ready then Some (print BackendNotReady w1)
          else
            (case create_ngrok_tunnel w1 of
               (None, w2) \<Rightarrow> Some w2
             | (Some t, w2) \<Rightarrow>
                 (let url = public_url t;
                      w3 = update_env url w2;
                      w4 = print (PublicUrl url) w3;
                      w5 = (if backend_ready then curl_commands url w4
                            else print SkippingCurl w4);
                      w6 = update_env url w5
                  in supervise url w6)))"

section \<open>The service launcher (ollama\_setup.py)\<close>

text \<open>
  The exceptions that leave a function of this program: \<^verbatim>\<open>OSError\<close> of a spawn,
  \<^verbatim>\<open>UnicodeDecodeError\<close> of \<^verbatim>\<open>bytes.decode\<close>.
\<close>

datatype exception = OSError | UnicodeDecodeError

definition run_exec :: "string list \<Rightarrow> world \<Rightarrow> exec_result \<times> world" where
  "run_exec args w =
     (exec_script w (exec_count w),
      emit (Exec args) (w\<lparr>exec_count := Suc (exec_count w)\<rparr>))"

subsection \<open>\<^verbatim>\<open>stop_existing_ollama\<close>\<close>

text \<open>The first \<^verbatim>\<open>try\<close> block: any of its three spawns may raise into the handler.\<close>

definition stop_service :: "world \<Rightarrow> world" where
  "stop_service w =
     (case run_exec [''systemctl'', ''is-active'', ''--quiet'', ''ollama''] w of
        (ExecRaises, w1) \<Rightarrow> print SystemdCheckFailed w1
      | (Exited status out err, w1) \<Rightarrow>
          if status = 0 then
            (case run_exec [''sudo'', ''systemctl'', ''stop'', ''ollama''] (print ServiceActive w1) of
               (ExecRaises, w2) \<Rightarrow> print SystemdCheckFailed w2
             | (Exited status2 out2 err2, w2) \<Rightarrow>
                 (case run_exec [''sudo'', ''systemctl'', ''disable'', ''ollama''] w2 of
                    (ExecRaises, w3) \<Rightarrow> print SystemdCheckFailed w3
                  | (Exited status3 out3 err3, w3) \<Rightarrow> print ServiceStopped w3))
          else w1)"

definition stop_existing_ollama :: "world \<Rightarrow> world" where
  "stop_existing_ollama w =
     (let w1 = stop_service w;
          w2 = (case run_exec [''pkill'', ''-f'', ''ollama serve''] w1 of
                  (ExecRaises, w') \<Rightarrow> print PkillFailed w'
                | (Exited status out err, w') \<Rightarrow> print KilledServe w')
      in sleep 2 w2)"

subsection \<open>\<^verbatim>\<open>kill_process_on_port\<close>\<close>

definition os_kill :: "int \<Rightarrow> world \<Rightarrow> bool \<times> world" where
  "os_kill pid w =
     (kill_script w (kill_count w),
      emit (Kill pid) (w\<lparr>kill_count := Suc (kill_count w)\<rparr>))"

text \<open>
  The \<^verbatim>\<open>for\<close> loop over the entries: the result says whether the loop ran to
  its end (\<open>True\<close>) or an exception left it (\<open>False\<close>): \<^verbatim>\<open>int\<close> on an
  entry that is no number, or \<^verbatim>\<open>os.kill\<close>.
\<close>

fun kill_pids :: "nat \<Rightarrow> int option list \<Rightarrow> world \<Rightarrow> bool \<times> world" where
  "kill_pids port [] w = (True, w)"
| "kill_pids port (entry # entries) w =
     (let w1 = print (KillingPid port entry) w
      in case entry of
           None \<Rightarrow> (False, w1)
         | Some pid \<Rightarrow>
             (case os_kill pid w1 of
                (True, w2) \<Rightarrow> (False, w2)
              | (False, w2) \<Rightarrow> kill_pids port entries w2))"

definition run_lsof :: "nat \<Rightarrow> world \<Rightarrow> lsof_result \<times> world" where
  "run_lsof port w =
     (lsof_script w (lsof_count w),
      emit (Lsof port) (w\<lparr>lsof_count := Suc (lsof_count w)\<rparr>))"

text \<open>
  The sleep of two seconds stands inside \<^verbatim>\<open>if stdout:\<close>, after the loop: it is
  reached when \<^verbatim>\<open>lsof\<close> printed something and no exception left the loop.
\<close>

definition kill_process_on_port :: "nat \<Rightarrow> world \<Rightarrow> world" where
  "kill_process_on_port port w =
     (case run_lsof port w of
        (LsofRaises, w1) \<Rightarrow> print (KillFailed port) w1
      | (LsofOutput entries, w1) \<Rightarrow>
          if entries \<noteq> [] then
            (case kill_pids port entries w1 of
               (True, w2) \<Rightarrow> sleep 2 w2
             | (False, w2) \<Rightarrow> print (KillFailed port) w2)
          else w1)"

subsection \<open>\<^verbatim>\<open>is_port_free\<close> and \<^verbatim>\<open>wait_for_server\<close>\<close>

definition is_port_free :: "nat \<Rightarrow> world \<Rightarrow> bool \<times> world" where
  "is_port_free port w =
     (port_script w (port_count w),
      emit (PortCheck port) (w\<lparr>port_count := Suc (port_count w)\<rparr>))"

text \<open>\<^verbatim>\<open>session.get\<close> of aiohttp: the next HTTP request, as \<open>requests_get\<close>.\<close>

definition session_get :: "string \<Rightarrow> world \<Rightarrow> http_result \<times> world" where
  "session_get url w = requests_get url w"

text \<open>The decimal digits of a number, for the URL \<^verbatim>\<open>f"http://localhost:{port}/"\<close>.\<close>

fun decimal :: "nat \<Rightarrow> string" where
  "decimal n =
     (if n < 10 then [char_of (48 + n)]
      else decimal (n div 10) @ [char_of (48 + n mod 10)])"

declare decimal.simps [simp del]

text \<open>
  \<^verbatim>\<open>for _ in range(timeout)\<close>: \<open>left\<close> is the number of rounds still to run.
  Any exception of the request is passed over; a round without a 200 prints and sleeps
  one second.
\<close>

fun wait_for_server_loop :: "string \<Rightarrow> nat \<Rightarrow> nat \<Rightarrow> world \<Rightarrow> bool \<times> world" where
  "wait_for_server_loop url port 0 w = (False, w)"
| "wait_for_server_loop url port (Suc left) w =
     (case session_get url w of
        (Response status body, w1) \<Rightarrow>
          if status = 200 then (True, print (ServerReady port) w1)
          else wait_for_server_loop url port left (sleep 1 (print (WaitingForServer port) w1))
      | (RequestError, w1) \<Rightarrow>
          wait_for_server_loop url port left (sleep 1 (print (WaitingForServer port) w1)))"

definition wait_for_server :: "nat \<Rightarrow> nat \<Rightarrow> world \<Rightarrow> bool \<times> world" where
  "wait_for_server port timeout w =
     (case wait_for_server_loop (''http://localhost:'' @ decimal port @ ''/'') port timeout w of
        (True, w1) \<Rightarrow> (True, w1)
      | (False, w1) \<Rightarrow> (False, print (ServerNotReady timeout) w1))"

subsection \<open>\<^verbatim>\<open>start_ollama\<close>\<close>

text \<open>
  \<^verbatim>\<open>create_subprocess_shell\<close> stands outside every \<^verbatim>\<open>try\<close> block: when
  the spawn raises, the exception leaves \<^verbatim>\<open>start_ollama\<close>.
\<close>

definition run_shell :: "string \<Rightarrow> world \<Rightarrow> exec_result \<times> world" where
  "run_shell cmd w =
     (exec_script w (exec_count w),
      emit (Shell cmd) (w\<lparr>exec_count := Suc (exec_count w)\<rparr>))"

definition start_ollama :: "world \<Rightarrow> (exception + bool) \<times> world" where
  "start_ollama w =
     (let w0 = print CheckingPort w;
          (free, w1) = is_port_free 11434 w0;
          w2 = (if \<not> free then kill_process_on_port 11434 w1 else w1);
          (free2, w3) = is_port_free 11434 w2
      in if \<not> free2 then (Inr False, print StillOccupied w3)
         else
           (case run_shell ''nohup ollama serve > ollama_start.log 2>&1 &''
                   (print StartingOllama (print PortFree w3)) of
              (ExecRaises, w4) \<Rightarrow> (Inl OSError, w4)
            | (Exited status out err, w4) \<Rightarrow>
                (case wait_for_server 11434 30 (print ServeIssued w4) of
                   (server_ready, w5) \<Rightarrow> (Inr server_ready, w5))))"

subsection \<open>\<^verbatim>\<open>run_ollama_commands\<close> and \<^verbatim>\<open>main\<close>\<close>

definition commands :: "string list list" where
  "commands =
     [[''ollama'', ''list''],
      [''ollama'', ''run'', ''mistral''],
      [''ollama'', ''run'', ''deepseek-coder''],
      [''ollama'', ''run'', ''llava''],
      [''ollama'', ''run'', ''wizard-vicuna-uncensored'']]"

text \<open>
  \<^verbatim>\<open>bytes.decode()\<close> with its default arguments: UTF-8, strict. \<open>utf8\<close> reads
  the values of the bytes and returns the code points they encode, or \<open>None\<close> where
  the bytes are not well-formed UTF-8: a byte that cannot start a sequence, a sequence
  that is cut short or continued by a byte outside \<open>80..BF\<close>, an overlong form
  (\<open>C0\<close>, \<open>C1\<close>, \<open>E0\<close> followed by less than \<open>A0\<close>, \<open>F0\<close> followed by less
  than \<open>90\<close>), a surrogate (\<open>ED\<close> followed by more than \<open>9F\<close>), or a code point
  above \<open>10FFFF\<close> (\<open>F4\<close> followed by more than \<open>8F\<close>, and \<open>F5..FF\<close>).
\<close>

definition continuation :: "nat \<Rightarrow> bool" where
  "continuation b = (0x80 \<le> b \<and> b \<le> 0xBF)"

fun utf8 :: "nat list \<Rightarrow> nat list option" where
  "utf8 [] = Some []"
| "utf8 (b # bs) =
     (if b < 0x80 then map_option ((#) b) (utf8 bs)
      else if 0xC2 \<le> b \<and> b \<le> 0xDF then
        (case bs of
           c1 # rest \<Rightarrow>
             if continuation c1
             then map_option ((#) ((b - 0xC0) * 0x40 + (c1 - 0x80))) (utf8 rest)
             else None
         | _ \<Rightarrow> None)
      else if 0xE0 \<le> b \<and> b \<le> 0xEF then
        (case bs of
           c1 # c2 # rest \<Rightarrow>
             if (if b = 0xE0 then 0xA0 else 0x80) \<le> c1 \<and>
                c1 \<le> (if b = 0xED then 0x9F else 0xBF) \<and> continuation c2
             then map_option
                    ((#) ((b - 0xE0) * 0x1000 + (c1 - 0x80) * 0x40 + (c2 - 0x80))) (utf8 rest)
             else None
         | _ \<Rightarrow> None)
      else if 0xF0 \<le> b \<and> b \<le> 0xF4 then
        (case bs of
           c1 # c2 # c3 # rest \<Rightarrow>
             if (if b = 0xF0 then 0x90 else 0x80) \<le> c1 \<and>
                c1 \<le> (if b = 0xF4 then 0x8F else 0xBF) \<and>
                continuation c2 \<and> continuation c3
             then map_option
                    ((#) ((b - 0xF0) * 0x40000 + (c1 - 0x80) * 0x1000 + (c2 - 0x80) * 0x40
                          + (c3 - 0x80))) (utf8 rest)
             else None
         | _ \<Rightarrow> None)
      else None)"

declare utf8.simps [simp del]

definition decode :: "string \<Rightarrow> exception + nat list" where
  "decode bs =
     (case utf8 (map of_char bs) of
        None \<Rightarrow> Inl UnicodeDecodeError
      | Some text \<Rightarrow> Inr text)"

text \<open>
  \<^verbatim>\<open>if stdout: print(stdout.decode())\<close>, and the same for the standard error:
  nothing is done with an empty output, and \<^verbatim>\<open>decode\<close> may raise.
\<close>

definition print_output :: "string \<Rightarrow> world \<Rightarrow> (exception + unit) \<times> world" where
  "print_output out w =
     (if out \<noteq> [] then
        (case decode out of
           Inl e \<Rightarrow> (Inl e, w)
         | Inr text \<Rightarrow> (Inr (), print (Output text) w))
      else (Inr (), w))"

text \<open>
  The \<^verbatim>\<open>for\<close> loop over the commands. The return code is not read. The spawn
  and the two calls of \<^verbatim>\<open>decode\<close> stand outside every \<^verbatim>\<open>try\<close> block:
  when one of them raises, the exception leaves the loop and the function.
\<close>

fun run_commands :: "string list list \<Rightarrow> world \<Rightarrow> (exception + unit) \<times> world" where
  "run_commands [] w = (Inr (), w)"
| "run_commands (cmd # cmds) w =
     (case run_exec cmd (print (Executing cmd) w) of
        (ExecRaises, w1) \<Rightarrow> (Inl OSError, w1)
      | (Exited returncode out err, w1) \<Rightarrow>
          (case print_output out w1 of
             (Inl e, w2) \<Rightarrow> (Inl e, w2)
           | (Inr u, w2) \<Rightarrow>
               (case print_output err w2 of
                  (Inl e, w3) \<Rightarrow> (Inl e, w3)
                | (Inr u', w3) \<Rightarrow> run_commands cmds w3)))"

definition run_ollama_commands :: "world \<Rightarrow> (exception + unit) \<times> world" where
  "run_ollama_commands w = run_commands commands w"

definition ollama_main :: "world \<Rightarrow> (exception + unit) \<times> world" where
  "ollama_main w =
     (case start_ollama (stop_existing_ollama w) of
        (Inl e, w1) \<Rightarrow> (Inl e, w1)
      | (Inr started, w1) \<Rightarrow>
          if started then run_ollama_commands w1
          else (Inr (), print NotStarted w1))"

section \<open>Notions the properties are stated with\<close>

text \<open>
  A world in which nothing answers: every request and every connection attempt fails, no
  token is set, the port is occupied, and nothing was done yet. The worlds of the examples
  below change it where they differ.
\<close>

definition quiet_world :: world where
  "quiet_world =
     \<lparr>clock = 0,
      http_script = (\<lambda>n. (RequestError, 0)), http_count = 0,
      connect_script = (\<lambda>n. None), connect_count = 0,
      disconnect_script = (\<lambda>n. False), disconnect_count = 0,
      authtoken = None, env_file = [],
      port_script = (\<lambda>n. False), port_count = 0,
      exec_script = (\<lambda>n. Exited 0 [] []), exec_count = 0,
      lsof_script = (\<lambda>n. LsofOutput []), lsof_count = 0,
      kill_script = (\<lambda>n. False), kill_count = 0,
      trace = []\<rparr>"

text \<open>
  A line is well formed when it ends with its only newline; a file is terminated when it
  is empty or ends with a newline.
\<close>

definition wf_line :: "string \<Rightarrow> bool" where
  "wf_line l = (l \<noteq> [] \<and> last l = CHR 0x0A \<and> CHR 0x0A \<notin> set (butlast l))"

definition terminated :: "string \<Rightarrow> bool" where
  "terminated content = (content = [] \<or> last content = CHR 0x0A)"

definition key_line :: "string \<Rightarrow> bool" where
  "key_line line = startswith line ''NGROK_URL=''"

text \<open>
  What \<open>k\<close> failed connection attempts leave in the trace when the first of them is
  attempt number \<open>attempt\<close>, counted from 0: the attempt, its message, the delay.
\<close>

definition failed_attempts :: "nat \<Rightarrow> nat \<Rightarrow> event list" where
  "failed_attempts attempt k =
     concat (map (\<lambda>j. [Connect 8080, Print (AttemptFailed (Suc (attempt + j))), Sleep retry_delay])
       [0..<k])"

text \<open>A provider that refuses four connection attempts and accepts the fifth.\<close>

definition flaky_world :: world where
  "flaky_world =
     quiet_world
       \<lparr>connect_script := (\<lambda>n. if n = 4 then Some (NgrokTunnel ''https://a.ngrok.io'') else None),
        authtoken := Some ''token''\<rparr>"

fun is_sleep :: "event \<Rightarrow> bool" where
  "is_sleep (Sleep secs) = True"
| "is_sleep e = False"

text \<open>
  The \<open>j\<close>-th round of a watchdog that starts in \<open>w\<close>, counted from 0, is healthy when
  the environment's answers to its two requests are: a list of active tunnels that holds
  the URL, and status 200 from the URL. Healthy rounds make two requests each, so round
  \<open>j\<close> reads the answers \<open>2 * j\<close> and \<open>2 * j + 1\<close> after those already used.
\<close>

definition cycle_healthy :: "string \<Rightarrow> world \<Rightarrow> nat \<Rightarrow> bool" where
  "cycle_healthy url w j =
     (case fst (http_script w (http_count w + 2 * j)) of
        RequestError \<Rightarrow> False
      | Response api_status None \<Rightarrow> False
      | Response api_status (Some active_urls) \<Rightarrow>
          url \<in> set active_urls \<and>
          (case fst (http_script w (http_count w + 2 * j + 1)) of
             RequestError \<Rightarrow> False
           | Response status_code body \<Rightarrow> status_code = 200))"

definition healthy_round :: "string \<Rightarrow> world \<Rightarrow> world" where
  "healthy_round url w = sleep 15 (snd (watchdog_check url w))"

text \<open>
  A tunnel that is listed and reachable for two rounds; in the third round the provider's
  list is empty.
\<close>

definition stale_world :: world where
  "stale_world =
     quiet_world
       \<lparr>http_script :=
          (\<lambda>n. if n = 0 \<or> n = 2 then (Response 200 (Some [''https://a.ngrok.io'']), 0)
                else if n = 1 \<or> n = 3 then (Response 200 None, 0)
                else (Response 200 (Some []), 0))\<rparr>"

fun is_write :: "event \<Rightarrow> bool" where
  "is_write (WriteEnv content) = True"
| "is_write e = False"

fun is_200 :: "http_result \<Rightarrow> bool" where
  "is_200 (Response status_code body) = (status_code = 200)"
| "is_200 RequestError = False"


text \<open>
  \<open>extends P w w'\<close>: the world \<open>w'\<close> has the configuration file of \<open>w\<close>, and its trace
  is the trace of \<open>w\<close> followed by events that all satisfy \<open>P\<close>.
\<close>

definition extends :: "(event \<Rightarrow> bool) \<Rightarrow> world \<Rightarrow> world \<Rightarrow> bool" where
  "extends P w w' =
     (env_file w' = env_file w \<and> (\<exists>es. trace w' = trace w @ es \<and> list_all P es))"

text \<open>
  The backend answers the first request with 200; every later request fails, so the
  watchdog reports a failure at once. The provider gives the first tunnel the URL
  \<^verbatim>\<open>https://a.ngrok.io\<close> and the second \<^verbatim>\<open>https://b.ngrok.io\<close>, and refuses
  every later attempt.
\<close>

definition reconnect_world :: world where
  "reconnect_world =
     quiet_world
       \<lparr>http_script := (\<lambda>n. if n = 0 then (Response 200 None, 0) else (RequestError, 0)),
        connect_script :=
          (\<lambda>n. if n = 0 then Some (NgrokTunnel ''https://a.ngrok.io'')
                else if n = 1 then Some (NgrokTunnel ''https://b.ngrok.io'')
                else None),
        authtoken := Some ''token''\<rparr>"


text \<open>A backend whose every request fails after 30 seconds, and a file with one line.\<close>

definition slow_world :: world where
  "slow_world =
     quiet_world
       \<lparr>http_script := (\<lambda>n. (RequestError, 30000)),
        env_file := ''FOO=bar'' @ [CHR 0x0A]\<rparr>"

text \<open>A backend that is up, no token, and a file with one line.\<close>

definition no_token_world :: world where
  "no_token_world =
     quiet_world
       \<lparr>http_script := (\<lambda>n. (Response 200 None, 0)),
        env_file := ''FOO=bar'' @ [CHR 0x0A]\<rparr>"

text \<open>
  What \<open>k\<close> rounds of \<^verbatim>\<open>wait_for_server\<close> without a 200 leave in the trace: the
  request, the message, the sleep of one second.
\<close>

definition waiting_rounds :: "string \<Rightarrow> nat \<Rightarrow> nat \<Rightarrow> event list" where
  "waiting_rounds url port k =
     concat (replicate k [HttpGet url, Print (WaitingForServer port), Sleep 1])"

text \<open>The environment answers its \<open>i\<close>-th HTTP request with status 200.\<close>

definition probe_ok :: "world \<Rightarrow> nat \<Rightarrow> bool" where
  "probe_ok w i = is_200 (fst (http_script w i))"

text \<open>
  The time, in milliseconds, that the \<open>k\<close> requests from number \<open>i\<close> on take, and the
  time that \<open>k\<close> rounds of \<^verbatim>\<open>wait_for_backend\<close> without a 200 take from request
  number \<open>i\<close> on: the requests, and a sleep of one second after each.
\<close>

definition request_time :: "world \<Rightarrow> nat \<Rightarrow> nat \<Rightarrow> nat" where
  "request_time w i k = sum_list (map (\<lambda>j. snd (http_script w j)) [i..<i + k])"

definition elapsed :: "world \<Rightarrow> nat \<Rightarrow> nat \<Rightarrow> int" where
  "elapsed w i k = 1000 * int k + int (request_time w i k)"

text \<open>
  What \<^verbatim>\<open>wait_for_backend\<close> guarantees about its result \<open>r\<close> when its loop starts in
  the world \<open>w\<close> at clock \<open>start\<close>. A result \<open>True\<close> comes with the first 200, after \<open>k\<close>
  failed probes and \<open>k\<close> sleeps of one second, and the request that finds it starts
  before \<open>timeout\<close> seconds have passed on the clock. A result \<open>False\<close> comes after
  \<open>n\<close> failed probes and \<open>n\<close> sleeps, where \<open>n\<close> is the first number of rounds after
  which \<open>timeout\<close> seconds have passed. Every round takes a second or more, which bounds
  the number of probes by the time that was left.
\<close>

definition backend_result :: "int \<Rightarrow> int \<Rightarrow> world \<Rightarrow> bool \<times> world \<Rightarrow> bool" where
  "backend_result start timeout w r =
     (http_script (snd r) = http_script w \<and>
      (fst r \<longrightarrow>
         (\<exists>k es. http_count (snd r) = http_count w + k + 1 \<and>
            probe_ok w (http_count w + k) \<and> (\<forall>j<k. \<not> probe_ok w (http_count w + j)) \<and>
            clock w - start + elapsed w (http_count w) k < 1000 * timeout \<and>
            trace (snd r) = trace w @ es \<and> filter is_sleep es = replicate k (Sleep 1))) \<and>
      (\<not> fst r \<longrightarrow>
         (\<exists>n es. http_count (snd r) = http_count w + n \<and>
            (\<forall>j<n. \<not> probe_ok w (http_count w + j)) \<and>
            (\<forall>j<n. clock w - start + elapsed w (http_count w) j < 1000 * timeout) \<and>
            1000 * timeout \<le> clock w - start + elapsed w (http_count w) n \<and>
            clock (snd r) = clock w + elapsed w (http_count w) n \<and>
            trace (snd r) = trace w @ es \<and> filter is_sleep es = replicate n (Sleep 1) \<and>
            start + 1000 * timeout \<le> clock (snd r))) \<and>
      (if clock w - start < 1000 * timeout
       then 1000 * int (http_count (snd r) - http_count w) \<le> start + 1000 * timeout - clock w + 999
       else http_count (snd r) = http_count w))"

text \<open>A server that answers 200 to the third request.\<close>

definition third_probe_world :: world where
  "third_probe_world =
     quiet_world
       \<lparr>http_script := (\<lambda>n. if n = 2 then (Response 200 None, 0) else (RequestError, 0))\<rparr>"

text \<open>A backend whose every request fails after one second.\<close>

definition one_second_world :: world where
  "one_second_world = quiet_world\<lparr>http_script := (\<lambda>n. (RequestError, 1000))\<rparr>"

text \<open>A backend whose every request fails after one millisecond.\<close>

definition millisecond_world :: world where
  "millisecond_world = quiet_world\<lparr>http_script := (\<lambda>n. (RequestError, 1))\<rparr>"

text \<open>What the loop over the entries of \<^verbatim>\<open>lsof\<close> does: announce a process, kill it.\<close>

fun kill_event :: "event \<Rightarrow> bool" where
  "kill_event (Kill pid) = True"
| "kill_event (Print (KillingPid port entry)) = True"
| "kill_event e = False"

text \<open>
  What \<^verbatim>\<open>kill_process_on_port\<close> does after it ran \<^verbatim>\<open>lsof\<close>: the events of
  the loop, the cooldown, the message of its handler.
\<close>

fun pass_event :: "event \<Rightarrow> bool" where
  "pass_event (Kill pid) = True"
| "pass_event (Print (KillingPid port entry)) = True"
| "pass_event (Print (KillFailed port)) = True"
| "pass_event (Sleep secs) = True"
| "pass_event e = False"

text \<open>What \<^verbatim>\<open>start_ollama\<close> does after the second check: no check, no \<^verbatim>\<open>lsof\<close>, no kill.\<close>

fun launch_event :: "event \<Rightarrow> bool" where
  "launch_event (PortCheck port) = False"
| "launch_event (Lsof port) = False"
| "launch_event (Kill pid) = False"
| "launch_event e = True"

text \<open>
  The remediation pass in the world \<open>w\<close> completes for the processes \<open>pids\<close>:
  \<^verbatim>\<open>lsof\<close> prints these process numbers, at least one, and no \<^verbatim>\<open>os.kill\<close>
  raises.
\<close>

definition pass_completes :: "world \<Rightarrow> int list \<Rightarrow> bool" where
  "pass_completes w pids =
     (lsof_script w (lsof_count w) = LsofOutput (map Some pids) \<and> pids \<noteq> [] \<and>
      (\<forall>i<length pids. \<not> kill_script w (kill_count w + i)))"

definition kills :: "nat \<Rightarrow> int list \<Rightarrow> event list" where
  "kills port pids = concat (map (\<lambda>pid. [Print (KillingPid port (Some pid)), Kill pid]) pids)"

text \<open>A port that stays occupied although its two owners are killed.\<close>

definition stubborn_world :: world where
  "stubborn_world = quiet_world\<lparr>lsof_script := (\<lambda>n. LsofOutput [Some 4242, Some 4243])\<rparr>"

text \<open>An occupied port whose owner \<^verbatim>\<open>lsof\<close> does not list: its output is empty.\<close>

definition unlisted_world :: world where
  "unlisted_world =
     quiet_world\<lparr>port_script := (\<lambda>n. False), lsof_script := (\<lambda>n. LsofOutput [])\<rparr>"

text \<open>An output that is not empty and that \<^verbatim>\<open>decode\<close> refuses.\<close>

definition undecodable :: "string \<Rightarrow> bool" where
  "undecodable out = (out \<noteq> [] \<and> isl (decode out))"

text \<open>
  The exception that a command with this answer raises in the loop of
  \<^verbatim>\<open>run_ollama_commands\<close>: the command cannot be spawned, or one of its outputs
  cannot be decoded. \<open>None\<close>: the process ran, with whatever return code, and the loop
  goes on to the next command.
\<close>

fun raised :: "exec_result \<Rightarrow> exception option" where
  "raised ExecRaises = Some OSError"
| "raised (Exited returncode out err) =
     (if undecodable out \<or> undecodable err then Some UnicodeDecodeError else None)"

text \<open>What is printed of one output: its decoded text, when it is not empty and decodes.\<close>

definition printed :: "string \<Rightarrow> event list" where
  "printed out =
     (if out \<noteq> [] then (case decode out of Inl e \<Rightarrow> [] | Inr text \<Rightarrow> [Print (Output text)])
      else [])"

text \<open>
  What the program prints of a subprocess's answer: the standard output, then the standard
  error, up to the first of them that cannot be decoded.
\<close>

fun surfaced :: "exec_result \<Rightarrow> event list" where
  "surfaced (Exited returncode out err) =
     (if undecodable out then [] else printed out @ printed err)"
| "surfaced ExecRaises = []"

text \<open>
  What running the commands \<open>cmds\<close> leaves in the trace when the first of them gets the
  answer number \<open>i\<close> and none but the last raises: for each command its announcement,
  the spawn, and its outputs.
\<close>

fun commands_trace :: "world \<Rightarrow> nat \<Rightarrow> string list list \<Rightarrow> event list" where
  "commands_trace w i [] = []"
| "commands_trace w i (cmd # cmds) =
     [Print (Executing cmd), Exec cmd] @ surfaced (exec_script w i) @ commands_trace w (Suc i) cmds"

text \<open>An event before the commands are run: any event but the spawn of one of the commands.\<close>

fun setup_event :: "event \<Rightarrow> bool" where
  "setup_event (Exec args) = (args \<notin> set commands)"
| "setup_event e = True"

text \<open>The argument lists of the spawns made or tried, in order.\<close>

fun executed :: "event list \<Rightarrow> string list list" where
  "executed [] = []"
| "executed (Exec args # es) = args # executed es"
| "executed (e # es) = executed es"

text \<open>
  The result of \<^verbatim>\<open>start_ollama\<close> in \<^verbatim>\<open>main\<close> of ollama\_setup.py, and the world
  it leaves.
\<close>

definition readiness :: "world \<Rightarrow> exception + bool" where
  "readiness w = fst (start_ollama (stop_existing_ollama w))"

definition ready_world :: "world \<Rightarrow> world" where
  "ready_world w = snd (start_ollama (stop_existing_ollama w))"

text \<open>
  The answer to the \<open>j\<close>-th command of the list in a run of \<^verbatim>\<open>main\<close> that starts
  in the world \<open>w\<close>.
\<close>

definition answer :: "world \<Rightarrow> nat \<Rightarrow> exec_result" where
  "answer w j = exec_script (ready_world w) (exec_count (ready_world w) + j)"

text \<open>
  The port is free and the server answers at once; \<^verbatim>\<open>systemctl is-active\<close>
  returns 3; \<^verbatim>\<open>ollama list\<close> prints a line, and \<^verbatim>\<open>ollama run mistral\<close>
  fails with return code 1 and a message on its standard error.
\<close>

definition failing_command_world :: world where
  "failing_command_world =
     quiet_world
       \<lparr>http_script := (\<lambda>n. (Response 200 None, 0)),
        port_script := (\<lambda>n. True),
        exec_script :=
          (\<lambda>n. if n = 0 then Exited 3 [] []
                else if n = 3 then Exited 0 ''NAME'' []
                else if n = 4 then Exited 1 [] ''Error: pull model manifest''
                else Exited 0 [] [])\<rparr>"

text \<open>
  The same, but \<^verbatim>\<open>ollama run mistral\<close> cannot be spawned: the fifth subprocess
  of the run raises.
\<close>

definition spawn_failure_world :: world where
  "spawn_failure_world =
     quiet_world
       \<lparr>http_script := (\<lambda>n. (Response 200 None, 0)),
        port_script := (\<lambda>n. True),
        exec_script :=
          (\<lambda>n. if n = 0 then Exited 3 [] []
                else if n = 3 then Exited 0 ''NAME'' []
                else if n = 4 then ExecRaises
                else Exited 0 [] [])\<rparr>"

text \<open>
  The same, but \<^verbatim>\<open>ollama run mistral\<close> leaves the byte \<open>FF\<close> on its standard
  error, which is not UTF-8.
\<close>

definition undecodable_output_world :: world where
  "undecodable_output_world =
     quiet_world
       \<lparr>http_script := (\<lambda>n. (Response 200 None, 0)),
        port_script := (\<lambda>n. True),
        exec_script :=
          (\<lambda>n. if n = 0 then Exited 3 [] []
                else if n = 3 then Exited 0 ''NAME'' []
                else if n = 4 then Exited 1 [] [CHR 0xFF]
                else Exited 0 [] [])\<rparr>"

section \<open>Properties of the configuration file\<close>

lemma readlines_append_line: "wf_line l \<Longrightarrow> readlines (l @ s) = l # readlines s"
proof (induction l)
  case Nil
  then show ?case by (simp add: wf_line_def)
next
  case (Cons c l)
  show ?case
  proof (cases "l = []")
    case True
    with Cons.prems show ?thesis by (simp add: wf_line_def)
  next
    case False
    with Cons.prems have "wf_line l" "c \<noteq> CHR 0x0A" by (auto simp: wf_line_def)
    with Cons.IH show ?thesis by simp
  qed
qed

lemma readlines_concat: "\<forall>l\<in>set ls. wf_line l \<Longrightarrow> readlines (concat ls) = ls"
  by (induction ls) (simp_all add: readlines_append_line)

lemma concat_readlines: "concat (readlines s) = s"
  by (induction s) (auto split: list.splits)

lemma readlines_Nil_iff: "readlines s = [] \<longleftrightarrow> s = []"
  by (cases s) (simp_all split: list.splits)

lemma wf_line_Cons: "wf_line l \<Longrightarrow> c \<noteq> CHR 0x0A \<Longrightarrow> wf_line (c # l)"
  by (simp add: wf_line_def)

lemma readlines_wf: "terminated s \<Longrightarrow> \<forall>l\<in>set (readlines s). wf_line l"
proof (induction s)
  case Nil
  show ?case by simp
next
  case (Cons c cs)
  have tl: "terminated cs"
    using Cons.prems unfolding terminated_def by (cases cs) simp_all
  note IH = Cons.IH [OF tl]
  show ?case
  proof (cases "c = CHR 0x0A")
    case True
    with IH show ?thesis by (simp add: wf_line_def)
  next
    case False
    with Cons.prems have "cs \<noteq> []" by (auto simp: terminated_def)
    then obtain l ls where r: "readlines cs = l # ls"
      by (cases "readlines cs") (simp_all add: readlines_Nil_iff)
    with IH have "wf_line l" "\<forall>x\<in>set ls. wf_line x" by simp_all
    with False r show ?thesis by (simp add: wf_line_Cons)
  qed
qed

lemma wf_line_key: "CHR 0x0A \<notin> set url \<Longrightarrow> wf_line (''NGROK_URL='' @ url @ [CHR 0x0A])"
  by (simp add: wf_line_def butlast_append)

lemma key_line_new: "key_line (''NGROK_URL='' @ url @ [CHR 0x0A])"
  by (simp add: key_line_def startswith_def)

lemma update_lines_wf:
  "\<forall>l\<in>set ls. wf_line l \<Longrightarrow> CHR 0x0A \<notin> set url \<Longrightarrow> \<forall>l\<in>set (update_lines url ls). wf_line l"
  using wf_line_key [of url] by (auto simp: update_lines_def)

lemma readlines_update_env_content:
  assumes "terminated content" and "CHR 0x0A \<notin> set url"
  shows "readlines (update_env_content url content) = update_lines url (readlines content)"
  unfolding update_env_content_def writelines_def
  by (rule readlines_concat) (rule update_lines_wf [OF readlines_wf [OF assms(1)] assms(2)])

lemma update_env_content_terminated: "terminated (update_env_content url content)"
  by (simp add: terminated_def update_env_content_def writelines_def update_lines_def)

lemma update_lines_twice:
  "update_lines b (update_lines a ls) =
     filter (\<lambda>line. \<not> key_line line) ls @ [''NGROK_URL='' @ b @ [CHR 0x0A]]"
  using key_line_new [of a] by (simp add: update_lines_def key_line_def)

lemma update_env_content_twice:
  assumes "terminated content" and "CHR 0x0A \<notin> set a" and "CHR 0x0A \<notin> set b"
  shows "readlines (update_env_content b (update_env_content a content)) =
     filter (\<lambda>line. \<not> key_line line) (readlines content) @ [''NGROK_URL='' @ b @ [CHR 0x0A]]"
proof -
  have "readlines (update_env_content b (update_env_content a content)) =
        update_lines b (readlines (update_env_content a content))"
    by (rule readlines_update_env_content [OF update_env_content_terminated assms(3)])
  also have "\<dots> = update_lines b (update_lines a (readlines content))"
    by (simp add: readlines_update_env_content [OF assms(1,2)])
  finally show ?thesis by (simp add: update_lines_twice)
qed

text \<open>
  On a terminated file and for URLs without a newline, writing the key twice leaves one
  line for the key, the second value, after the other lines, which are the file's own in
  their order.
\<close>

theorem update_env_terminated_file:
  assumes "terminated content" and "CHR 0x0A \<notin> set a" and "CHR 0x0A \<notin> set b"
  shows "filter key_line (readlines (update_env_content b (update_env_content a content))) =
           [''NGROK_URL='' @ b @ [CHR 0x0A]] \<and>
         filter (\<lambda>line. \<not> key_line line)
             (readlines (update_env_content b (update_env_content a content))) =
           filter (\<lambda>line. \<not> key_line line) (readlines content)"
  using key_line_new [of b] by (simp add: update_env_content_twice [OF assms])

theorem update_env_terminated_file_witness:
  "filter key_line
     (readlines (update_env_content ''https://b.ngrok.io''
        (update_env_content ''https://a.ngrok.io'' (''FOO=bar'' @ [CHR 0x0A])))) =
     [''NGROK_URL=https://b.ngrok.io'' @ [CHR 0x0A]] \<and>
   filter (\<lambda>line. \<not> key_line line)
     (readlines (update_env_content ''https://b.ngrok.io''
        (update_env_content ''https://a.ngrok.io'' (''FOO=bar'' @ [CHR 0x0A])))) =
     [''FOO=bar'' @ [CHR 0x0A]]"
  using update_env_terminated_file
    [of "''FOO=bar'' @ [CHR 0x0A]" "''https://a.ngrok.io''" "''https://b.ngrok.io''"]
  by (simp add: terminated_def key_line_def startswith_def)

text \<open>
  C2. The claim: for every content of the file, writing \<^verbatim>\<open>NGROK_URL=A\<close> and then
  \<^verbatim>\<open>NGROK_URL=B\<close> leaves exactly one line for the key, with value B, and all
  other lines unchanged and in their order. The code at a file whose last line has no
  newline, \<^verbatim>\<open>FOO=bar\<close>: the file has the one line \<^verbatim>\<open>FOO=bar\<close>; the first
  write appends the new line to it without a newline between, so the file read back has
  the one line \<^verbatim>\<open>FOO=barNGROK_URL=A\<close> and no line for the key; the second write
  does not find the first value, which stays in the line of \<^verbatim>\<open>FOO\<close>.
\<close>

theorem update_env_unterminated_file:
  "readlines ''FOO=bar'' = [''FOO=bar''] \<and>
   readlines (update_env_content ''A'' ''FOO=bar'') = [''FOO=barNGROK_URL=A'' @ [CHR 0x0A]] \<and>
   filter key_line (readlines (update_env_content ''A'' ''FOO=bar'')) = [] \<and>
   readlines (update_env_content ''B'' (update_env_content ''A'' ''FOO=bar'')) =
     [''FOO=barNGROK_URL=A'' @ [CHR 0x0A], ''NGROK_URL=B'' @ [CHR 0x0A]]"
  by (simp add: update_env_content_def update_lines_def writelines_def startswith_def
      key_line_def)

section \<open>Properties of \<^verbatim>\<open>create_ngrok_tunnel\<close>\<close>

lemma failed_attempts_Suc:
  "failed_attempts a (Suc k) =
     [Connect 8080, Print (AttemptFailed (Suc a)), Sleep retry_delay] @ failed_attempts (Suc a) k"
  by (simp add: failed_attempts_def map_upt_Suc del: upt_Suc)

lemma failed_round_fields:
  fixes w :: world and a :: nat
  defines "w1 \<equiv> sleep retry_delay (print (AttemptFailed (Suc a)) (snd (ngrok_connect 8080 w)))"
  shows "connect_script w1 = connect_script w"
    and "connect_count w1 = Suc (connect_count w)"
    and "trace w1 = trace w @ [Connect 8080, Print (AttemptFailed (Suc a)), Sleep retry_delay]"
    and "env_file w1 = env_file w"
    and "http_count w1 = http_count w"
  by (simp_all add: w1_def sleep_def print_def emit_def ngrok_connect_def)

lemma connect_loop_failed_round:
  "connect_script w (connect_count w) = None \<Longrightarrow>
   connect_loop a (Suc n) w =
     connect_loop (Suc a) n
       (sleep retry_delay (print (AttemptFailed (Suc a)) (snd (ngrok_connect 8080 w))))"
  by (simp add: ngrok_connect_def)

lemma connect_loop_all_fail:
  "\<forall>j<n. connect_script w (connect_count w + j) = None \<Longrightarrow>
   fst (connect_loop a n w) = None \<and>
   trace (snd (connect_loop a n w)) = trace w @ failed_attempts a n @ [Print TunnelFailed] \<and>
   connect_count (snd (connect_loop a n w)) = connect_count w + n"
proof (induction n arbitrary: a w)
  case 0
  show ?case by (simp add: failed_attempts_def print_def emit_def)
next
  case (Suc n)
  let ?w1 = "sleep retry_delay (print (AttemptFailed (Suc a)) (snd (ngrok_connect 8080 w)))"
  from Suc.prems have first: "connect_script w (connect_count w) = None"
    by (metis add.right_neutral zero_less_Suc)
  note step = connect_loop_failed_round [OF first]
  note flds = failed_round_fields [of a w]
  have "\<forall>j<n. connect_script ?w1 (connect_count ?w1 + j) = None"
    using Suc.prems by (auto simp: flds)
  from Suc.IH [OF this, of "Suc a"] show ?case
    unfolding step flds failed_attempts_Suc by simp
qed

lemma connect_loop_success:
  "k < n \<Longrightarrow> \<forall>j<k. connect_script w (connect_count w + j) = None \<Longrightarrow>
   connect_script w (connect_count w + k) = Some t \<Longrightarrow>
   fst (connect_loop a n w) = Some t \<and>
   trace (snd (connect_loop a n w)) =
     trace w @ failed_attempts a k @ [Connect 8080, Print (TunnelEstablished (public_url t))] \<and>
   connect_count (snd (connect_loop a n w)) = connect_count w + k + 1"
proof (induction n arbitrary: a w k)
  case 0
  then show ?case by simp
next
  case (Suc n)
  show ?case
  proof (cases k)
    case 0
    with Suc.prems show ?thesis
      by (simp add: ngrok_connect_def failed_attempts_def print_def emit_def)
  next
    case (Suc k')
    let ?w1 = "sleep retry_delay (print (AttemptFailed (Suc a)) (snd (ngrok_connect 8080 w)))"
    from Suc.prems Suc have first: "connect_script w (connect_count w) = None"
      by (metis add.right_neutral zero_less_Suc)
    note step = connect_loop_failed_round [OF first]
    note flds = failed_round_fields [of a w]
    have a: "k' < n" using Suc.prems Suc by simp
    have b: "\<forall>j<k'. connect_script ?w1 (connect_count ?w1 + j) = None"
      using Suc.prems Suc by (auto simp: flds)
    have c: "connect_script ?w1 (connect_count ?w1 + k') = Some t"
      using Suc.prems Suc by (simp add: flds)
    from Suc.IH [OF a b c, of "Suc a"] show ?thesis
      unfolding step flds failed_attempts_Suc Suc by simp
  qed
qed

lemma create_ngrok_tunnel_with_token:
  "authtoken w = Some tok \<Longrightarrow> tok \<noteq> [] \<Longrightarrow>
   create_ngrok_tunnel w = connect_loop 0 max_retries (emit (SetAuthToken tok) w)"
  by (simp add: create_ngrok_tunnel_def)

text \<open>
  C5. With the token set, and for every sequence of answers of the provider: when the
  first \<open>k\<close> attempts raise and attempt \<open>k + 1\<close> succeeds, for \<open>k\<close> below
  \<open>max_retries = 5\<close>, the function returns that tunnel, and what it did is: \<open>k\<close>
  times an attempt, the message of its failure and a sleep of \<open>retry_delay = 5\<close> seconds,
  then the attempt that succeeds and its message. When \<open>max_retries\<close> attempts raise, it
  returns \<open>None\<close> after exactly these attempts, each with its message and its delay.
\<close>

theorem create_ngrok_tunnel_bounded_retry:
  assumes "authtoken w = Some tok" and "tok \<noteq> []"
  shows "(\<forall>k t. k < max_retries \<and>
            (\<forall>j<k. connect_script w (connect_count w + j) = None) \<and>
            connect_script w (connect_count w + k) = Some t \<longrightarrow>
            fst (create_ngrok_tunnel w) = Some t \<and>
            trace (snd (create_ngrok_tunnel w)) =
              trace w @ [SetAuthToken tok] @ failed_attempts 0 k
                @ [Connect 8080, Print (TunnelEstablished (public_url t))]) \<and>
         ((\<forall>j<max_retries. connect_script w (connect_count w + j) = None) \<longrightarrow>
            fst (create_ngrok_tunnel w) = None \<and>
            trace (snd (create_ngrok_tunnel w)) =
              trace w @ [SetAuthToken tok] @ failed_attempts 0 max_retries @ [Print TunnelFailed])"
proof (intro conjI allI impI)
  fix k t
  assume h: "k < max_retries \<and>
    (\<forall>j<k. connect_script w (connect_count w + j) = None) \<and>
    connect_script w (connect_count w + k) = Some t"
  let ?w0 = "emit (SetAuthToken tok) w"
  have flds: "connect_script ?w0 = connect_script w" "connect_count ?w0 = connect_count w"
    "trace ?w0 = trace w @ [SetAuthToken tok]"
    by (simp_all add: emit_def)
  from h have "k < max_retries"
    and "\<forall>j<k. connect_script ?w0 (connect_count ?w0 + j) = None"
    and "connect_script ?w0 (connect_count ?w0 + k) = Some t"
    by (simp_all add: flds)
  from connect_loop_success [OF this, of 0]
  show "fst (create_ngrok_tunnel w) = Some t"
    and "trace (snd (create_ngrok_tunnel w)) =
      trace w @ [SetAuthToken tok] @ failed_attempts 0 k
        @ [Connect 8080, Print (TunnelEstablished (public_url t))]"
    by (simp_all add: create_ngrok_tunnel_with_token [OF assms] flds)
next
  assume h: "\<forall>j<max_retries. connect_script w (connect_count w + j) = None"
  let ?w0 = "emit (SetAuthToken tok) w"
  have flds: "connect_script ?w0 = connect_script w" "connect_count ?w0 = connect_count w"
    "trace ?w0 = trace w @ [SetAuthToken tok]"
    by (simp_all add: emit_def)
  from h have "\<forall>j<max_retries. connect_script ?w0 (connect_count ?w0 + j) = None"
    by (simp add: flds)
  from connect_loop_all_fail [OF this, of 0]
  show "fst (create_ngrok_tunnel w) = None"
    and "trace (snd (create_ngrok_tunnel w)) =
      trace w @ [SetAuthToken tok] @ failed_attempts 0 max_retries @ [Print TunnelFailed]"
    by (simp_all add: create_ngrok_tunnel_with_token [OF assms] flds)
qed

text \<open>The provider that refuses four attempts and accepts the fifth: the result is the tunnel.\<close>

theorem create_ngrok_tunnel_bounded_retry_witness:
  "fst (create_ngrok_tunnel flaky_world) = Some (NgrokTunnel ''https://a.ngrok.io'') \<and>
   trace (snd (create_ngrok_tunnel flaky_world)) =
     [SetAuthToken ''token'',
      Connect 8080, Print (AttemptFailed 1), Sleep 5,
      Connect 8080, Print (AttemptFailed 2), Sleep 5,
      Connect 8080, Print (AttemptFailed 3), Sleep 5,
      Connect 8080, Print (AttemptFailed 4), Sleep 5,
      Connect 8080, Print (TunnelEstablished ''https://a.ngrok.io'')]"
proof -
  have tok: "authtoken flaky_world = Some ''token''" "''token'' \<noteq> []"
    by (simp_all add: flaky_world_def quiet_world_def)
  have run: "4 < max_retries \<and>
      (\<forall>j<4. connect_script flaky_world (connect_count flaky_world + j) = None) \<and>
      connect_script flaky_world (connect_count flaky_world + 4) =
        Some (NgrokTunnel ''https://a.ngrok.io'')"
    by (simp add: flaky_world_def quiet_world_def max_retries_def)
  from create_ngrok_tunnel_bounded_retry [OF tok] run
  have "fst (create_ngrok_tunnel flaky_world) = Some (NgrokTunnel ''https://a.ngrok.io'') \<and>
    trace (snd (create_ngrok_tunnel flaky_world)) =
      trace flaky_world @ [SetAuthToken ''token''] @ failed_attempts 0 4
        @ [Connect 8080, Print (TunnelEstablished (public_url (NgrokTunnel ''https://a.ngrok.io'')))]"
    by blast
  then show ?thesis
    by (simp add: flaky_world_def quiet_world_def failed_attempts_def retry_delay_def
        upt_rec [of _ "numeral _"] upt_rec [of _ "Suc _"])
qed

text \<open>
  C6. When the token is not set, or is empty, the function returns \<open>None\<close> and has done
  nothing but print the message: no connection attempt, no HTTP request, no sleep.
\<close>

theorem create_ngrok_tunnel_missing_token:
  assumes "authtoken w = None \<or> authtoken w = Some []"
  shows "create_ngrok_tunnel w = (None, print TokenNotSet w) \<and>
         trace (print TokenNotSet w) = trace w @ [Print TokenNotSet] \<and>
         connect_count (print TokenNotSet w) = connect_count w \<and>
         http_count (print TokenNotSet w) = http_count w \<and>
         clock (print TokenNotSet w) = clock w"
  using assms by (auto simp: create_ngrok_tunnel_def print_def emit_def)

theorem create_ngrok_tunnel_missing_token_witness:
  "create_ngrok_tunnel quiet_world = (None, print TokenNotSet quiet_world) \<and>
   trace (print TokenNotSet quiet_world) = [Print TokenNotSet] \<and>
   connect_count (print TokenNotSet quiet_world) = 0 \<and>
   http_count (print TokenNotSet quiet_world) = 0"
  using create_ngrok_tunnel_missing_token [of quiet_world]
  by (simp add: quiet_world_def)

section \<open>Properties of \<^verbatim>\<open>ngrok_watchdog\<close>\<close>

lemma watchdog_check_healthy:
  assumes "cycle_healthy url w 0"
  shows "fst (watchdog_check url w) = None"
    and "trace (snd (watchdog_check url w)) =
          trace w @ [HttpGet ''http://127.0.0.1:4040/api/tunnels'', HttpGet url]"
    and "http_count (snd (watchdog_check url w)) = http_count w + 2"
    and "http_script (snd (watchdog_check url w)) = http_script w"
  using assms
  by (auto simp: cycle_healthy_def watchdog_check_def requests_get_def emit_def print_def
      split: prod.splits http_result.splits option.splits)

lemma watchdog_check_unhealthy:
  assumes "\<not> cycle_healthy url w 0"
  shows "fst (watchdog_check url w) = Some False"
    and "\<exists>es. trace (snd (watchdog_check url w)) = trace w @ es \<and> filter is_sleep es = []"
    and "http_count w < http_count (snd (watchdog_check url w))"
    and "http_count (snd (watchdog_check url w)) \<le> http_count w + 2"
  using assms
  by (auto simp: cycle_healthy_def watchdog_check_def requests_get_def emit_def print_def
      split: prod.splits http_result.splits option.splits)

lemma watchdog_loop_healthy_round:
  "cycle_healthy url w 0 \<Longrightarrow> watchdog_loop url w = watchdog_loop url (healthy_round url w)"
  using watchdog_check_healthy(1) [of url w]
  by (subst watchdog_loop.simps) (auto simp: healthy_round_def split: prod.splits)

lemma healthy_round_fields:
  assumes "cycle_healthy url w 0"
  shows "trace (healthy_round url w) =
          trace w @ [HttpGet ''http://127.0.0.1:4040/api/tunnels'', HttpGet url, Sleep 15]"
    and "http_count (healthy_round url w) = http_count w + 2"
    and "http_script (healthy_round url w) = http_script w"
  using watchdog_check_healthy(2-4) [OF assms]
  by (simp_all add: healthy_round_def sleep_def emit_def)

lemma cycle_healthy_shift:
  "cycle_healthy url w 0 \<Longrightarrow> cycle_healthy url (healthy_round url w) j = cycle_healthy url w (Suc j)"
  by (simp add: cycle_healthy_def healthy_round_fields
      cong: http_result.case_cong option.case_cong)

lemma watchdog_loop_unhealthy_round:
  "\<not> cycle_healthy url w 0 \<Longrightarrow> watchdog_loop url w = Some (False, snd (watchdog_check url w))"
  using watchdog_check_unhealthy(1) [of url w]
  by (subst watchdog_loop.simps) (auto split: prod.splits)

lemma watchdog_loop_fails_at:
  "\<forall>j<k. cycle_healthy url w j \<Longrightarrow> \<not> cycle_healthy url w k \<Longrightarrow>
   \<exists>w' es. watchdog_loop url w = Some (False, w') \<and> trace w' = trace w @ es \<and>
     filter is_sleep es = replicate k (Sleep 15) \<and>
     http_count w + 2 * k < http_count w' \<and> http_count w' \<le> http_count w + 2 * k + 2"
proof (induction k arbitrary: w)
  case 0
  from watchdog_check_unhealthy(2) [OF 0(2)] obtain es
    where "trace (snd (watchdog_check url w)) = trace w @ es" "filter is_sleep es = []"
    by blast
  with watchdog_loop_unhealthy_round [OF 0(2)] watchdog_check_unhealthy(3,4) [OF 0(2)]
  show ?case by simp
next
  case (Suc k)
  from Suc.prems have h0: "cycle_healthy url w 0" by simp
  let ?w1 = "healthy_round url w"
  have a: "\<forall>j<k. cycle_healthy url ?w1 j"
    using Suc.prems by (simp add: cycle_healthy_shift [OF h0])
  have b: "\<not> cycle_healthy url ?w1 k"
    using Suc.prems by (simp add: cycle_healthy_shift [OF h0])
  from Suc.IH [OF a b] obtain w' es where
    r: "watchdog_loop url ?w1 = Some (False, w')" and t: "trace w' = trace ?w1 @ es"
    and s: "filter is_sleep es = replicate k (Sleep 15)"
    and c: "http_count ?w1 + 2 * k < http_count w'" "http_count w' \<le> http_count ?w1 + 2 * k + 2"
    by blast
  let ?es = "[HttpGet ''http://127.0.0.1:4040/api/tunnels'', HttpGet url, Sleep 15] @ es"
  have "watchdog_loop url w = Some (False, w')"
    using r by (simp add: watchdog_loop_healthy_round [OF h0])
  moreover have "trace w' = trace w @ ?es"
    using t by (simp add: healthy_round_fields [OF h0])
  moreover have "filter is_sleep ?es = replicate (Suc k) (Sleep 15)"
    using s by simp
  moreover have "http_count w + 2 * Suc k < http_count w'"
    "http_count w' \<le> http_count w + 2 * Suc k + 2"
    using c by (simp_all add: healthy_round_fields [OF h0])
  ultimately show ?case by blast
qed

lemma watchdog_check_result: "fst (watchdog_check url w) \<noteq> Some True"
  by (simp add: watchdog_check_def split: prod.splits http_result.splits option.splits)

lemma watchdog_loop_returns_False:
  assumes "watchdog_loop url w = Some rw"
  shows "fst rw = False"
proof (rule watchdog_loop.raw_induct [where P = "\<lambda>url w rw. fst rw = False", OF _ assms])
  fix loop url w rw
  assume IH: "\<And>url w rw. loop url w = Some rw \<Longrightarrow> fst rw = False"
    and eq: "(case watchdog_check url w of
               (None, w1) \<Rightarrow> loop url (sleep 15 w1)
             | (Some r, w1) \<Rightarrow> Some (r, w1)) = Some rw"
  obtain r w1 where c: "watchdog_check url w = (r, w1)" by (cases "watchdog_check url w")
  show "fst rw = False"
  proof (cases r)
    case None
    with eq c have "loop url (sleep 15 w1) = Some rw" by simp
    then show ?thesis by (rule IH)
  next
    case (Some b)
    with watchdog_check_result [of url w] c have "b = False" by simp
    with eq c Some show ?thesis by auto
  qed
qed

lemma watchdog_loop_returns_unhealthy:
  assumes "watchdog_loop url w = Some rw"
  shows "\<exists>k. \<not> cycle_healthy url w k"
proof (rule watchdog_loop.raw_induct
    [where P = "\<lambda>url w rw. \<exists>k. \<not> cycle_healthy url w k", OF _ assms])
  fix loop url w rw
  assume IH: "\<And>url w rw. loop url w = Some rw \<Longrightarrow> \<exists>k. \<not> cycle_healthy url w k"
    and eq: "(case watchdog_check url w of
               (None, w1) \<Rightarrow> loop url (sleep 15 w1)
             | (Some r, w1) \<Rightarrow> Some (r, w1)) = Some rw"
  show "\<exists>k. \<not> cycle_healthy url w k"
  proof (cases "cycle_healthy url w 0")
    case False
    then show ?thesis by blast
  next
    case True
    with eq watchdog_check_healthy(1) [OF True]
    have "loop url (healthy_round url w) = Some rw"
      by (auto simp: healthy_round_def split: prod.splits)
    from IH [OF this] obtain k where "\<not> cycle_healthy url (healthy_round url w) k" ..
    then have "\<not> cycle_healthy url w (Suc k)"
      by (simp add: cycle_healthy_shift [OF True])
    then show ?thesis ..
  qed
qed

text \<open>
  C4. For every script of answers: the watchdog never returns \<open>True\<close>; when the rounds
  before round \<open>k\<close> are healthy and round \<open>k\<close> is not (the list omits the URL, the URL
  does not answer 200, or a request or the reading of its answer raises), the watchdog
  returns \<open>False\<close> in round \<open>k\<close>, having slept 15 seconds exactly \<open>k\<close> times, once
  after each healthy round; and when every round is healthy it never returns.
\<close>

theorem ngrok_watchdog_signals_failure:
  "(\<forall>r w'. ngrok_watchdog url w = Some (r, w') \<longrightarrow> r = False) \<and>
   (\<forall>k. (\<forall>j<k. cycle_healthy url w j) \<and> \<not> cycle_healthy url w k \<longrightarrow>
      (\<exists>w' es. ngrok_watchdog url w = Some (False, w') \<and>
         trace w' = trace w @ Print (WatchdogStart url) # es \<and>
         filter is_sleep es = replicate k (Sleep 15) \<and>
         http_count w + 2 * k < http_count w' \<and> http_count w' \<le> http_count w + 2 * k + 2)) \<and>
   ((\<forall>j. cycle_healthy url w j) \<longrightarrow> ngrok_watchdog url w = None)"
proof (intro conjI allI impI)
  fix r w'
  assume "ngrok_watchdog url w = Some (r, w')"
  from watchdog_loop_returns_False [OF this [unfolded ngrok_watchdog_def]]
  show "r = False" by simp
next
  fix k
  let ?w0 = "print (WatchdogStart url) w"
  have same: "cycle_healthy url ?w0 = cycle_healthy url w"
    by (rule ext)
      (simp add: cycle_healthy_def print_def emit_def
        cong: http_result.case_cong option.case_cong)
  have flds: "trace ?w0 = trace w @ [Print (WatchdogStart url)]" "http_count ?w0 = http_count w"
    by (simp_all add: print_def emit_def)
  assume "(\<forall>j<k. cycle_healthy url w j) \<and> \<not> cycle_healthy url w k"
  then have "\<forall>j<k. cycle_healthy url ?w0 j" "\<not> cycle_healthy url ?w0 k"
    by (simp_all add: same)
  from watchdog_loop_fails_at [OF this] obtain w' es where
    "watchdog_loop url ?w0 = Some (False, w')" "trace w' = trace ?w0 @ es"
    "filter is_sleep es = replicate k (Sleep 15)"
    "http_count ?w0 + 2 * k < http_count w'" "http_count w' \<le> http_count ?w0 + 2 * k + 2"
    by blast
  then have "ngrok_watchdog url w = Some (False, w') \<and>
      trace w' = trace w @ Print (WatchdogStart url) # es \<and>
      filter is_sleep es = replicate k (Sleep 15) \<and>
      http_count w + 2 * k < http_count w' \<and> http_count w' \<le> http_count w + 2 * k + 2"
    by (simp add: ngrok_watchdog_def flds)
  then show "\<exists>w' es. ngrok_watchdog url w = Some (False, w') \<and>
      trace w' = trace w @ Print (WatchdogStart url) # es \<and>
      filter is_sleep es = replicate k (Sleep 15) \<and>
      http_count w + 2 * k < http_count w' \<and> http_count w' \<le> http_count w + 2 * k + 2"
    by blast
next
  let ?w0 = "print (WatchdogStart url) w"
  have same: "cycle_healthy url ?w0 = cycle_healthy url w"
    by (rule ext)
      (simp add: cycle_healthy_def print_def emit_def
        cong: http_result.case_cong option.case_cong)
  assume all: "\<forall>j. cycle_healthy url w j"
  show "ngrok_watchdog url w = None"
  proof (cases "ngrok_watchdog url w")
    case None
    then show ?thesis .
  next
    case (Some rw)
    from watchdog_loop_returns_unhealthy [OF this [unfolded ngrok_watchdog_def]] all
    show ?thesis by (simp add: same)
  qed
qed

text \<open>
  Two healthy rounds, then a list without the URL: the watchdog returns \<open>False\<close> in the
  third round, after two sleeps and five requests.
\<close>

theorem ngrok_watchdog_signals_failure_witness:
  "\<exists>w' es. ngrok_watchdog ''https://a.ngrok.io'' stale_world = Some (False, w') \<and>
     trace w' = Print (WatchdogStart ''https://a.ngrok.io'') # es \<and>
     filter is_sleep es = [Sleep 15, Sleep 15] \<and>
     4 < http_count w' \<and> http_count w' \<le> 6"
proof -
  have "(\<forall>j<2. cycle_healthy ''https://a.ngrok.io'' stale_world j) \<and>
        \<not> cycle_healthy ''https://a.ngrok.io'' stale_world 2"
    by (simp add: cycle_healthy_def stale_world_def quiet_world_def less_Suc_eq numeral_2_eq_2)
  with ngrok_watchdog_signals_failure [of "''https://a.ngrok.io''" stale_world]
  have "\<exists>w' es. ngrok_watchdog ''https://a.ngrok.io'' stale_world = Some (False, w') \<and>
     trace w' = trace stale_world @ Print (WatchdogStart ''https://a.ngrok.io'') # es \<and>
     filter is_sleep es = replicate 2 (Sleep 15) \<and>
     http_count stale_world + 2 * 2 < http_count w' \<and>
     http_count w' \<le> http_count stale_world + 2 * 2 + 2"
    by blast
  moreover have "trace stale_world = []" "http_count stale_world = 0"
    by (simp_all add: stale_world_def quiet_world_def)
  moreover have "replicate 2 (Sleep 15) = [Sleep 15, Sleep 15]"
    by (simp add: numeral_2_eq_2)
  ultimately show ?thesis by simp
qed

section \<open>Evaluating a run\<close>

text \<open>
  The equations a run on a given world is computed with. The loops are unfolded one round
  at a time: a round is entered once the result that decides it is known.
\<close>

lemma connect_loop_numeral:
  "connect_loop a (numeral k) w =
     (case ngrok_connect 8080 w of
        (Some t, w1) \<Rightarrow> (Some t, print (TunnelEstablished (public_url t)) w1)
      | (None, w1) \<Rightarrow>
          connect_loop (Suc a) (pred_numeral k)
            (sleep retry_delay (print (AttemptFailed (a + 1)) w1)))"
  by (simp only: numeral_eq_Suc connect_loop.simps)

lemmas run_defs =
  webui_main_def wait_for_backend_def wait_for_backend_loop.simps
  create_ngrok_tunnel_def max_retries_def retry_delay_def connect_loop_numeral
  update_env_def update_env_content_def update_lines_def writelines_def startswith_def
  curl_commands_def supervise.simps supervise_step_def ngrok_watchdog_def
  watchdog_loop.simps watchdog_check_def ngrok_disconnect_def
  requests_get_def ngrok_connect_def sleep_def print_def emit_def Let_def

lemmas run_congs = prod.case_cong_weak option.case_cong_weak http_result.case_cong_weak

section \<open>What a run leaves in the trace and in the file\<close>

lemma extends_refl: "extends P w w"
  by (simp add: extends_def)

lemma extends_trans: "extends P w w1 \<Longrightarrow> extends P w1 w2 \<Longrightarrow> extends P w w2"
  unfolding extends_def by (metis append.assoc list_all_append)

lemma extends_emit: "P e \<Longrightarrow> extends P w (emit e w)"
  by (simp add: extends_def emit_def)

lemma extends_print: "P (Print m) \<Longrightarrow> extends P w (print m w)"
  by (simp add: print_def extends_emit)

lemma extends_sleep: "P (Sleep secs) \<Longrightarrow> extends P w (sleep secs w)"
  by (simp add: extends_def sleep_def emit_def)

lemma extends_requests_get: "P (HttpGet url) \<Longrightarrow> extends P w (snd (requests_get url w))"
  by (simp add: extends_def requests_get_def emit_def split: prod.splits)

lemma extends_ngrok_connect: "P (Connect port) \<Longrightarrow> extends P w (snd (ngrok_connect port w))"
  by (simp add: extends_def ngrok_connect_def emit_def)

lemma wait_for_backend_loop_unfold:
  "wait_for_backend_loop url start timeout w =
     (if clock w - start < 1000 * timeout then
        (if is_200 (fst (requests_get url w))
         then (True, print BackendUp (snd (requests_get url w)))
         else wait_for_backend_loop url start timeout (sleep 1 (snd (requests_get url w))))
      else (False, print BackendTimeout w))"
  by (subst wait_for_backend_loop.simps)
    (simp split: prod.splits http_result.splits)

lemma wait_for_backend_loop_induct:
  assumes step: "\<And>w. (clock w - start < 1000 * timeout \<Longrightarrow> \<not> is_200 (fst (requests_get url w)) \<Longrightarrow>
              P (sleep 1 (snd (requests_get url w)))) \<Longrightarrow> P w"
  shows "P w"
proof -
  have "u = url \<longrightarrow> s = start \<longrightarrow> t = timeout \<longrightarrow> P w" for u s t
  proof (induction u s t w rule: wait_for_backend_loop.induct)
    case (1 u s t w)
    show ?case
    proof (intro impI)
      assume eq: "u = url" "s = start" "t = timeout"
      show "P w"
      proof (rule step)
        assume c: "clock w - start < 1000 * timeout"
          and n: "\<not> is_200 (fst (requests_get url w))"
        obtain r w1 where g: "requests_get url w = (r, w1)" by (cases "requests_get url w")
        show "P (sleep 1 (snd (requests_get url w)))"
        proof (cases r)
          case RequestError
          from 1(1) [of r w1] c g this eq show ?thesis by simp
        next
          case (Response st body)
          with n g have "st \<noteq> 200" by simp
          with 1(2) [of r w1 st body] c g Response eq show ?thesis by simp
        qed
      qed
    qed
  qed
  then show ?thesis by simp
qed

lemma extends_wait_for_backend_loop:
  assumes "P (HttpGet url)" "P (Sleep 1)" "P (Print BackendUp)" "P (Print BackendTimeout)"
  shows "extends P w (snd (wait_for_backend_loop url start timeout w))"
proof (induction w rule: wait_for_backend_loop_induct [where url = url and start = start and timeout = timeout])
  case (1 w)
  let ?w1 = "snd (requests_get url w)"
  have g: "extends P w ?w1" by (rule extends_requests_get) (rule assms)
  show ?case
  proof (cases "clock w - start < 1000 * timeout")
    case False
    then show ?thesis
      by (subst wait_for_backend_loop_unfold) (simp add: extends_print assms)
  next
    case True
    show ?thesis
    proof (cases "is_200 (fst (requests_get url w))")
      case ok: True
      have "extends P ?w1 (print BackendUp ?w1)" by (rule extends_print) (rule assms)
      with g have "extends P w (print BackendUp ?w1)" by (rule extends_trans)
      with True ok show ?thesis by (subst wait_for_backend_loop_unfold) simp
    next
      case no: False
      have "extends P ?w1 (sleep 1 ?w1)" by (rule extends_sleep) (rule assms)
      with g have "extends P w (sleep 1 ?w1)" by (rule extends_trans)
      from this 1 [OF True no]
      have "extends P w (snd (wait_for_backend_loop url start timeout (sleep 1 ?w1)))"
        by (rule extends_trans)
      with True no show ?thesis by (subst wait_for_backend_loop_unfold) simp
    qed
  qed
qed

lemma extends_wait_for_backend:
  assumes "P (Print (WaitingForBackend url))"
    "P (HttpGet url)" "P (Sleep 1)" "P (Print BackendUp)" "P (Print BackendTimeout)"
  shows "extends P w (snd (wait_for_backend url timeout w))"
proof -
  let ?w0 = "print (WaitingForBackend url) w"
  have "extends P w ?w0" by (rule extends_print) (rule assms)
  moreover have "extends P ?w0 (snd (wait_for_backend_loop url (clock ?w0) timeout ?w0))"
    by (rule extends_wait_for_backend_loop) (rule assms)+
  ultimately show ?thesis
    unfolding wait_for_backend_def Let_def by (rule extends_trans)
qed

lemma extends_connect_loop:
  assumes "P (Connect 8080)" "\<And>n. P (Print (AttemptFailed n))" "P (Sleep retry_delay)"
    "\<And>u. P (Print (TunnelEstablished u))" "P (Print TunnelFailed)"
  shows "extends P w (snd (connect_loop a n w))"
proof (induction n arbitrary: a w)
  case 0
  show ?case by (simp add: extends_print assms)
next
  case (Suc n)
  let ?w1 = "snd (ngrok_connect 8080 w)"
  have c: "extends P w ?w1" by (rule extends_ngrok_connect) (rule assms)
  show ?case
  proof (cases "fst (ngrok_connect 8080 w)")
    case None
    let ?w2 = "print (AttemptFailed (a + 1)) ?w1"
    have "extends P ?w1 ?w2" by (rule extends_print) (rule assms)
    with c have "extends P w ?w2" by (rule extends_trans)
    moreover have "extends P ?w2 (sleep retry_delay ?w2)" by (rule extends_sleep) (rule assms)
    ultimately have "extends P w (sleep retry_delay ?w2)" by (rule extends_trans)
    from this Suc [of "sleep retry_delay ?w2" "Suc a"]
    have "extends P w (snd (connect_loop (Suc a) n (sleep retry_delay ?w2)))"
      by (rule extends_trans)
    with None show ?thesis by (auto split: prod.splits)
  next
    case (Some t)
    have "extends P ?w1 (print (TunnelEstablished (public_url t)) ?w1)"
      by (rule extends_print) (rule assms)
    with c have "extends P w (print (TunnelEstablished (public_url t)) ?w1)"
      by (rule extends_trans)
    with Some show ?thesis by (auto split: prod.splits)
  qed
qed

lemma extends_create_ngrok_tunnel:
  assumes "P (Connect 8080)" "\<And>n. P (Print (AttemptFailed n))" "P (Sleep retry_delay)"
    "\<And>u. P (Print (TunnelEstablished u))" "P (Print TunnelFailed)"
    "P (Print TokenNotSet)" "\<And>t. P (SetAuthToken t)"
  shows "extends P w (snd (create_ngrok_tunnel w))"
proof (cases "authtoken w")
  case None
  then show ?thesis by (simp add: create_ngrok_tunnel_def extends_print assms(6))
next
  case (Some tok)
  show ?thesis
  proof (cases "tok = []")
    case True
    with Some show ?thesis by (simp add: create_ngrok_tunnel_def extends_print assms(6))
  next
    case False
    let ?w0 = "emit (SetAuthToken tok) w"
    have "extends P w ?w0" by (rule extends_emit) (rule assms)
    moreover have "extends P ?w0 (snd (connect_loop 0 max_retries ?w0))"
      by (rule extends_connect_loop) (rule assms)+
    ultimately have "extends P w (snd (connect_loop 0 max_retries ?w0))"
      by (rule extends_trans)
    with Some False show ?thesis by (simp add: create_ngrok_tunnel_def)
  qed
qed








section \<open>Properties of \<^verbatim>\<open>main\<close> of webui\_setup.py\<close>

text \<open>
  C10. When the backend does not become ready, or it does and the first
  \<^verbatim>\<open>create_ngrok_tunnel\<close> returns \<open>None\<close>, \<^verbatim>\<open>main\<close> returns, the content of
  \<^verbatim>\<open>.env\<close> is what it was, and nothing \<^verbatim>\<open>main\<close> did is a write to the file.
\<close>

theorem webui_main_error_paths_keep_env:
  assumes "\<not> fst (wait_for_backend ''http://localhost:8080'' 30 w) \<or>
           fst (create_ngrok_tunnel (snd (wait_for_backend ''http://localhost:8080'' 30 w))) = None"
  shows "\<exists>w'. webui_main w = Some w' \<and> env_file w' = env_file w \<and>
           (\<exists>es. trace w' = trace w @ es \<and> list_all (\<lambda>e. \<not> is_write e) es)"
proof -
  let ?Q = "\<lambda>e. \<not> is_write e"
  obtain ready w1 where wb: "wait_for_backend ''http://localhost:8080'' 30 w = (ready, w1)"
    by (cases "wait_for_backend ''http://localhost:8080'' 30 w")
  have e1: "extends ?Q w w1"
    using extends_wait_for_backend [of ?Q "''http://localhost:8080''" w 30] wb by simp
  obtain t w2 where ct: "create_ngrok_tunnel w1 = (t, w2)"
    by (cases "create_ngrok_tunnel w1")
  have "extends ?Q w1 w2"
    using extends_create_ngrok_tunnel [of ?Q w1] ct by simp
  with e1 have e2: "extends ?Q w w2" by (rule extends_trans)
  have "extends ?Q w1 (print BackendNotReady w1)" by (rule extends_print) simp
  with e1 have e3: "extends ?Q w (print BackendNotReady w1)" by (rule extends_trans)
  have "\<exists>w'. webui_main w = Some w' \<and> extends ?Q w w'"
  proof (cases ready)
    case False
    with wb e3 show ?thesis by (simp add: webui_main_def)
  next
    case True
    with assms wb ct have "t = None" by simp
    with True wb ct e2 show ?thesis by (simp add: webui_main_def)
  qed
  then show ?thesis by (simp add: extends_def)
qed

text \<open>The two paths: a backend that is never ready, and a backend that is up without a token.\<close>

theorem webui_main_error_paths_keep_env_witness:
  "(\<exists>w'. webui_main slow_world = Some w' \<and> env_file w' = ''FOO=bar'' @ [CHR 0x0A] \<and>
      (\<exists>es. trace w' = es \<and> list_all (\<lambda>e. \<not> is_write e) es)) \<and>
   (\<exists>w'. webui_main no_token_world = Some w' \<and> env_file w' = ''FOO=bar'' @ [CHR 0x0A] \<and>
      (\<exists>es. trace w' = es \<and> list_all (\<lambda>e. \<not> is_write e) es))"
proof -
  have a: "\<not> fst (wait_for_backend ''http://localhost:8080'' 30 slow_world)"
    by (simp add: run_defs slow_world_def quiet_world_def cong: run_congs)
  have b: "fst (create_ngrok_tunnel (snd (wait_for_backend ''http://localhost:8080'' 30
      no_token_world))) = None"
    by (simp add: run_defs no_token_world_def quiet_world_def cong: run_congs)
  have c: "env_file slow_world = ''FOO=bar'' @ [CHR 0x0A]" "trace slow_world = []"
    "env_file no_token_world = ''FOO=bar'' @ [CHR 0x0A]" "trace no_token_world = []"
    by (simp_all add: slow_world_def no_token_world_def quiet_world_def)
  from a have "\<not> fst (wait_for_backend ''http://localhost:8080'' 30 slow_world) \<or>
      fst (create_ngrok_tunnel (snd (wait_for_backend ''http://localhost:8080'' 30 slow_world))) = None"
    by simp
  from webui_main_error_paths_keep_env [OF this]
  have 1: "\<exists>w'. webui_main slow_world = Some w' \<and> env_file w' = ''FOO=bar'' @ [CHR 0x0A] \<and>
      (\<exists>es. trace w' = es \<and> list_all (\<lambda>e. \<not> is_write e) es)"
    by (simp add: c)
  from b have "\<not> fst (wait_for_backend ''http://localhost:8080'' 30 no_token_world) \<or>
      fst (create_ngrok_tunnel (snd (wait_for_backend ''http://localhost:8080'' 30
        no_token_world))) = None"
    by simp
  from webui_main_error_paths_keep_env [OF this]
  have 2: "\<exists>w'. webui_main no_token_world = Some w' \<and> env_file w' = ''FOO=bar'' @ [CHR 0x0A] \<and>
      (\<exists>es. trace w' = es \<and> list_all (\<lambda>e. \<not> is_write e) es)"
    by (simp add: c)
  from 1 2 show ?thesis by (rule conjI)
qed



text \<open>
  C1. The claim: on every failure the watchdog detects, the tunnel is re-established and
  the new tunnel's URL is written to the configuration file again. The code on the world
  in which the first tunnel is \<^verbatim>\<open>https://a.ngrok.io\<close>, the watchdog fails, and the
  tunnel that is re-established is \<^verbatim>\<open>https://b.ngrok.io\<close>: \<^verbatim>\<open>main\<close> ends when
  the next re-establishment fails; the file holds the URL of the first tunnel; the only
  writes are the two before the loop, both of the first URL; the second tunnel was
  established.
\<close>

theorem webui_main_new_url_not_persisted:
  "(case webui_main reconnect_world of
      None \<Rightarrow> False
    | Some w' \<Rightarrow>
        env_file w' = ''NGROK_URL=https://a.ngrok.io'' @ [CHR 0x0A] \<and>
        filter is_write (trace w') =
          [WriteEnv (''NGROK_URL=https://a.ngrok.io'' @ [CHR 0x0A]),
           WriteEnv (''NGROK_URL=https://a.ngrok.io'' @ [CHR 0x0A])] \<and>
        Print (TunnelEstablished ''https://b.ngrok.io'') \<in> set (trace w') \<and>
        last (trace w') = Print CouldNotRecreate)"
  by (simp add: run_defs reconnect_world_def quiet_world_def cong: run_congs)

section \<open>Properties of the readiness pollers\<close>

lemma requests_get_fields:
  "fst (requests_get url w) = fst (http_script w (http_count w))"
  "http_count (snd (requests_get url w)) = Suc (http_count w)"
  "http_script (snd (requests_get url w)) = http_script w"
  "trace (snd (requests_get url w)) = trace w @ [HttpGet url]"
  "clock w \<le> clock (snd (requests_get url w))"
  by (simp_all add: requests_get_def emit_def split: prod.splits)

lemma sleep_fields:
  "http_count (sleep n w) = http_count w"
  "http_script (sleep n w) = http_script w"
  "trace (sleep n w) = trace w @ [Sleep n]"
  "clock (sleep n w) = clock w + 1000 * int n"
  by (simp_all add: sleep_def emit_def)

lemma print_fields:
  "http_count (print m w) = http_count w"
  "http_script (print m w) = http_script w"
  "trace (print m w) = trace w @ [Print m]"
  "clock (print m w) = clock w"
  by (simp_all add: print_def emit_def)

lemma wait_for_server_loop_unfold:
  "wait_for_server_loop url port (Suc left) w =
     (if is_200 (fst (session_get url w))
      then (True, print (ServerReady port) (snd (session_get url w)))
      else wait_for_server_loop url port left
             (sleep 1 (print (WaitingForServer port) (snd (session_get url w)))))"
  by (simp split: prod.splits http_result.splits)

lemma wait_for_server_loop_exhausted:
  "\<forall>j<n. \<not> probe_ok w (http_count w + j) \<Longrightarrow>
   fst (wait_for_server_loop url port n w) = False \<and>
   http_count (snd (wait_for_server_loop url port n w)) = http_count w + n \<and>
   trace (snd (wait_for_server_loop url port n w)) = trace w @ waiting_rounds url port n"
proof (induction n arbitrary: w)
  case 0
  show ?case by (simp add: waiting_rounds_def)
next
  case (Suc n)
  let ?w1 = "sleep 1 (print (WaitingForServer port) (snd (session_get url w)))"
  from Suc.prems have first: "\<not> is_200 (fst (session_get url w))"
    by (simp add: probe_ok_def session_get_def requests_get_fields)
      (metis add.right_neutral zero_less_Suc)
  have flds: "http_count ?w1 = Suc (http_count w)" "http_script ?w1 = http_script w"
    "trace ?w1 = trace w @ [HttpGet url, Print (WaitingForServer port), Sleep 1]"
    by (simp_all add: session_get_def requests_get_fields sleep_fields print_fields)
  have "\<forall>j<n. \<not> probe_ok ?w1 (http_count ?w1 + j)"
    unfolding probe_ok_def flds using Suc.prems by (auto simp: probe_ok_def)
  from Suc.IH [OF this] first show ?case
    unfolding wait_for_server_loop_unfold flds by (simp add: waiting_rounds_def)
qed

lemma wait_for_server_loop_ready:
  "k < n \<Longrightarrow> \<forall>j<k. \<not> probe_ok w (http_count w + j) \<Longrightarrow> probe_ok w (http_count w + k) \<Longrightarrow>
   fst (wait_for_server_loop url port n w) = True \<and>
   http_count (snd (wait_for_server_loop url port n w)) = http_count w + k + 1 \<and>
   trace (snd (wait_for_server_loop url port n w)) =
     trace w @ waiting_rounds url port k @ [HttpGet url, Print (ServerReady port)]"
proof (induction n arbitrary: w k)
  case 0
  then show ?case by simp
next
  case (Suc n)
  show ?case
  proof (cases k)
    case 0
    with Suc.prems have "is_200 (fst (session_get url w))"
      by (simp add: probe_ok_def session_get_def requests_get_fields)
    then show ?thesis
      unfolding wait_for_server_loop_unfold
      by (simp add: 0 waiting_rounds_def session_get_def requests_get_fields print_fields)
  next
    case (Suc k')
    let ?w1 = "sleep 1 (print (WaitingForServer port) (snd (session_get url w)))"
    from Suc.prems Suc have first: "\<not> is_200 (fst (session_get url w))"
      by (simp add: probe_ok_def session_get_def requests_get_fields)
        (metis add.right_neutral zero_less_Suc)
    have flds: "http_count ?w1 = Suc (http_count w)" "http_script ?w1 = http_script w"
      "trace ?w1 = trace w @ [HttpGet url, Print (WaitingForServer port), Sleep 1]"
      by (simp_all add: session_get_def requests_get_fields sleep_fields print_fields)
    have a: "k' < n" using Suc.prems Suc by simp
    have b: "\<forall>j<k'. \<not> probe_ok ?w1 (http_count ?w1 + j)"
      unfolding probe_ok_def flds using Suc.prems Suc by (auto simp: probe_ok_def)
    have c: "probe_ok ?w1 (http_count ?w1 + k')"
      unfolding probe_ok_def flds using Suc.prems Suc by (simp add: probe_ok_def)
    from Suc.IH [OF a b c] first show ?thesis
      unfolding wait_for_server_loop_unfold flds Suc by (simp add: waiting_rounds_def)
  qed
qed

lemma requests_get_clock:
  "clock (snd (requests_get url w)) = clock w + int (snd (http_script w (http_count w)))"
  by (simp add: requests_get_def emit_def split: prod.splits)

lemma request_time_Suc:
  "request_time w i (Suc k) = snd (http_script w i) + request_time w (Suc i) k"
  by (simp add: request_time_def upt_conv_Cons del: upt_Suc)

lemma elapsed_0: "elapsed w i 0 = 0"
  by (simp add: elapsed_def request_time_def)

lemma elapsed_Suc:
  "elapsed w i (Suc k) = 1000 + int (snd (http_script w i)) + elapsed w (Suc i) k"
  by (simp add: elapsed_def request_time_Suc)

lemma elapsed_script: "http_script v = http_script w \<Longrightarrow> elapsed v i k = elapsed w i k"
  by (simp add: elapsed_def request_time_def)

lemma elapsed_step: "elapsed w i k + 1000 \<le> elapsed w i (Suc k)"
  by (simp add: elapsed_def request_time_def)

lemma elapsed_mono: "j \<le> k \<Longrightarrow> elapsed w i j \<le> elapsed w i k"
proof (induction k)
  case 0
  then show ?case by simp
next
  case (Suc k)
  show ?case
  proof (cases "j = Suc k")
    case True
    then show ?thesis by simp
  next
    case False
    with Suc.prems have "j \<le> k" by simp
    with Suc.IH elapsed_step [of w i k] show ?thesis by linarith
  qed
qed

lemma elapsed_lower: "1000 * int k \<le> elapsed w i k"
  by (simp add: elapsed_def)

lemma wait_for_backend_loop_result:
  "backend_result start timeout w (wait_for_backend_loop url start timeout w)"
proof (induction w rule: wait_for_backend_loop_induct
    [where url = url and start = start and timeout = timeout])
  case (1 w)
  let ?g = "requests_get url w"
  let ?w1 = "snd ?g"
  let ?w2 = "sleep 1 ?w1"
  let ?i = "http_count w"
  show ?case
  proof (cases "clock w - start < 1000 * timeout")
    case False
    have r: "wait_for_backend_loop url start timeout w = (False, print BackendTimeout w)"
      using False by (subst wait_for_backend_loop_unfold) simp
    have "\<exists>n es. http_count (print BackendTimeout w) = ?i + n \<and>
        (\<forall>j<n. \<not> probe_ok w (?i + j)) \<and>
        (\<forall>j<n. clock w - start + elapsed w ?i j < 1000 * timeout) \<and>
        1000 * timeout \<le> clock w - start + elapsed w ?i n \<and>
        clock (print BackendTimeout w) = clock w + elapsed w ?i n \<and>
        trace (print BackendTimeout w) = trace w @ es \<and>
        filter is_sleep es = replicate n (Sleep 1) \<and>
        start + 1000 * timeout \<le> clock (print BackendTimeout w)"
      using False
      by (intro exI [of _ 0] exI [of _ "[Print BackendTimeout]"])
        (simp add: print_fields elapsed_0)
    with False show ?thesis
      unfolding backend_result_def r by (simp add: print_fields)
  next
    case True
    show ?thesis
    proof (cases "is_200 (fst ?g)")
      case ok: True
      have r: "wait_for_backend_loop url start timeout w = (True, print BackendUp ?w1)"
        using True ok by (subst wait_for_backend_loop_unfold) simp
      have p: "probe_ok w ?i"
        using ok by (simp add: probe_ok_def requests_get_fields)
      have "\<exists>k es. http_count (print BackendUp ?w1) = ?i + k + 1 \<and>
          probe_ok w (?i + k) \<and> (\<forall>j<k. \<not> probe_ok w (?i + j)) \<and>
          clock w - start + elapsed w ?i k < 1000 * timeout \<and>
          trace (print BackendUp ?w1) = trace w @ es \<and>
          filter is_sleep es = replicate k (Sleep 1)"
        using p True
        by (intro exI [of _ 0] exI [of _ "[HttpGet url, Print BackendUp]"])
          (simp add: print_fields requests_get_fields elapsed_0)
      with True show ?thesis
        unfolding backend_result_def r by (simp add: print_fields requests_get_fields)
    next
      case no: False
      have r: "wait_for_backend_loop url start timeout w =
          wait_for_backend_loop url start timeout ?w2"
        using True no by (subst wait_for_backend_loop_unfold) simp
      let ?r = "wait_for_backend_loop url start timeout ?w2"
      have flds: "http_count ?w2 = Suc ?i" "http_script ?w2 = http_script w"
        "trace ?w2 = trace w @ [HttpGet url, Sleep 1]"
        by (simp_all add: sleep_fields requests_get_fields)
      have clk2: "clock ?w2 = clock w + (1000 + int (snd (http_script w ?i)))"
        by (simp add: sleep_fields requests_get_clock)
      have clk: "clock w + 1000 \<le> clock ?w2"
        unfolding clk2 by simp
      have np: "\<not> probe_ok w ?i"
        using no by (simp add: probe_ok_def requests_get_fields)
      have same: "probe_ok ?w2 = probe_ok w"
        by (rule ext) (simp only: probe_ok_def flds)
      have el: "elapsed ?w2 = elapsed w"
        by (intro ext) (rule elapsed_script, rule flds(2))
      have front: "clock w - start + elapsed w ?i (Suc j) =
          clock ?w2 - start + elapsed w (Suc ?i) j" for j
        unfolding clk2 elapsed_Suc by simp
      note IH = 1 [OF True no, unfolded backend_result_def flds same el]
      have shift: "\<forall>j<Suc k. \<not> probe_ok w (?i + j)"
        if "\<forall>j<k. \<not> probe_ok w (Suc ?i + j)" for k
      proof (intro allI impI)
        fix j assume "j < Suc k"
        with that np show "\<not> probe_ok w (?i + j)" by (cases j) simp_all
      qed
      have early: "\<forall>j<Suc n. clock w - start + elapsed w ?i j < 1000 * timeout"
        if "\<forall>j<n. clock ?w2 - start + elapsed w (Suc ?i) j < 1000 * timeout" for n
      proof (intro allI impI)
        fix j assume j: "j < Suc n"
        show "clock w - start + elapsed w ?i j < 1000 * timeout"
        proof (cases j)
          case 0
          with True show ?thesis by (simp add: elapsed_0)
        next
          case (Suc j')
          with j that have "clock ?w2 - start + elapsed w (Suc ?i) j' < 1000 * timeout"
            by simp
          then show ?thesis unfolding Suc front .
        qed
      qed
      have script: "http_script (snd ?r) = http_script w" using IH by simp
      have up: "\<exists>k es. http_count (snd ?r) = ?i + k + 1 \<and>
          probe_ok w (?i + k) \<and> (\<forall>j<k. \<not> probe_ok w (?i + j)) \<and>
          clock w - start + elapsed w ?i k < 1000 * timeout \<and>
          trace (snd ?r) = trace w @ es \<and> filter is_sleep es = replicate k (Sleep 1)"
        if "fst ?r"
      proof -
        from IH that obtain k es where
          a: "http_count (snd ?r) = Suc ?i + k + 1"
          and b: "probe_ok w (Suc ?i + k)"
          and c: "\<forall>j<k. \<not> probe_ok w (Suc ?i + j)"
          and t: "clock ?w2 - start + elapsed w (Suc ?i) k < 1000 * timeout"
          and d: "trace (snd ?r) = (trace w @ [HttpGet url, Sleep 1]) @ es"
          and e: "filter is_sleep es = replicate k (Sleep 1)"
          by blast
        from t have t': "clock w - start + elapsed w ?i (Suc k) < 1000 * timeout"
          unfolding front .
        show ?thesis
          using a b shift [OF c] t' d e
          by (intro exI [of _ "Suc k"] exI [of _ "[HttpGet url, Sleep 1] @ es"]) simp
      qed
      have down: "\<exists>n es. http_count (snd ?r) = ?i + n \<and>
          (\<forall>j<n. \<not> probe_ok w (?i + j)) \<and>
          (\<forall>j<n. clock w - start + elapsed w ?i j < 1000 * timeout) \<and>
          1000 * timeout \<le> clock w - start + elapsed w ?i n \<and>
          clock (snd ?r) = clock w + elapsed w ?i n \<and>
          trace (snd ?r) = trace w @ es \<and> filter is_sleep es = replicate n (Sleep 1) \<and>
          start + 1000 * timeout \<le> clock (snd ?r)"
        if "\<not> fst ?r"
      proof -
        from IH that obtain n es where
          a: "http_count (snd ?r) = Suc ?i + n"
          and c: "\<forall>j<n. \<not> probe_ok w (Suc ?i + j)"
          and t1: "\<forall>j<n. clock ?w2 - start + elapsed w (Suc ?i) j < 1000 * timeout"
          and t2: "1000 * timeout \<le> clock ?w2 - start + elapsed w (Suc ?i) n"
          and t3: "clock (snd ?r) = clock ?w2 + elapsed w (Suc ?i) n"
          and d: "trace (snd ?r) = (trace w @ [HttpGet url, Sleep 1]) @ es"
          and e: "filter is_sleep es = replicate n (Sleep 1)"
          and f: "start + 1000 * timeout \<le> clock (snd ?r)"
          by blast
        from t2 have t2': "1000 * timeout \<le> clock w - start + elapsed w ?i (Suc n)"
          unfolding front .
        from t3 have t3': "clock (snd ?r) = clock w + elapsed w ?i (Suc n)"
          unfolding clk2 elapsed_Suc by simp
        show ?thesis
          using a shift [OF c] early [OF t1] t2' t3' d e f
          by (intro exI [of _ "Suc n"] exI [of _ "[HttpGet url, Sleep 1] @ es"]) simp
      qed
      have bound: "1000 * int (http_count (snd ?r) - ?i)
          \<le> start + 1000 * timeout - clock w + 999"
      proof (cases "clock ?w2 - start < 1000 * timeout")
        case False
        with IH have "http_count (snd ?r) = Suc ?i" by simp
        with True show ?thesis by simp
      next
        case t: True
        with IH have "1000 * int (http_count (snd ?r) - Suc ?i)
            \<le> start + 1000 * timeout - clock ?w2 + 999" by simp
        with clk show ?thesis by linarith
      qed
      from script up down bound True show ?thesis
        unfolding backend_result_def r by simp
    qed
  qed
qed

lemma decimal_port: "decimal 11434 = ''11434''"
  by (simp add: decimal.simps [of 11434] decimal.simps [of 1143] decimal.simps [of 114]
        decimal.simps [of 11] decimal.simps [of "Suc 0"] char_of_def bit_Suc_0_iff)

lemma wait_for_backend_result:
  "backend_result (clock w) timeout w (wait_for_backend url timeout w)"
proof -
  let ?w0 = "print (WaitingForBackend url) w"
  let ?i = "http_count w"
  define r where "r = wait_for_backend_loop url (clock w) timeout ?w0"
  have same: "probe_ok ?w0 = probe_ok w"
    by (rule ext) (simp only: probe_ok_def print_fields)
  have el: "elapsed ?w0 = elapsed w"
    by (intro ext) (rule elapsed_script, simp only: print_fields)
  have L: "backend_result (clock w) timeout ?w0 r"
    using wait_for_backend_loop_result [of "clock ?w0" timeout ?w0 url]
    by (simp only: print_fields r_def)
  note L' = L [unfolded backend_result_def same el print_fields]
  have 1: "http_script (snd r) = http_script w" using L' by blast
  have 2: "\<exists>k es. http_count (snd r) = ?i + k + 1 \<and>
      probe_ok w (?i + k) \<and> (\<forall>j<k. \<not> probe_ok w (?i + j)) \<and>
      clock w - clock w + elapsed w ?i k < 1000 * timeout \<and>
      trace (snd r) = trace w @ es \<and> filter is_sleep es = replicate k (Sleep 1)"
    if "fst r"
  proof -
    from L' that obtain k es where
      "http_count (snd r) = ?i + k + 1" "probe_ok w (?i + k)"
      "\<forall>j<k. \<not> probe_ok w (?i + j)"
      "clock w - clock w + elapsed w ?i k < 1000 * timeout"
      "trace (snd r) = (trace w @ [Print (WaitingForBackend url)]) @ es"
      "filter is_sleep es = replicate k (Sleep 1)"
      by blast
    then show ?thesis
      by (intro exI [of _ k] exI [of _ "Print (WaitingForBackend url) # es"]) simp
  qed
  have 3: "\<exists>n es. http_count (snd r) = ?i + n \<and>
      (\<forall>j<n. \<not> probe_ok w (?i + j)) \<and>
      (\<forall>j<n. clock w - clock w + elapsed w ?i j < 1000 * timeout) \<and>
      1000 * timeout \<le> clock w - clock w + elapsed w ?i n \<and>
      clock (snd r) = clock w + elapsed w ?i n \<and>
      trace (snd r) = trace w @ es \<and> filter is_sleep es = replicate n (Sleep 1) \<and>
      clock w + 1000 * timeout \<le> clock (snd r)"
    if "\<not> fst r"
  proof -
    from L' that obtain n es where
      "http_count (snd r) = ?i + n"
      "\<forall>j<n. \<not> probe_ok w (?i + j)"
      "\<forall>j<n. clock w - clock w + elapsed w ?i j < 1000 * timeout"
      "1000 * timeout \<le> clock w - clock w + elapsed w ?i n"
      "clock (snd r) = clock w + elapsed w ?i n"
      "trace (snd r) = (trace w @ [Print (WaitingForBackend url)]) @ es"
      "filter is_sleep es = replicate n (Sleep 1)"
      "clock w + 1000 * timeout \<le> clock (snd r)"
      by blast
    then show ?thesis
      by (intro exI [of _ n] exI [of _ "Print (WaitingForBackend url) # es"]) simp
  qed
  have 4: "if clock w - clock w < 1000 * timeout
      then 1000 * int (http_count (snd r) - ?i)
        \<le> clock w + 1000 * timeout - clock w + 999
      else http_count (snd r) = ?i"
    using L' by blast
  have "backend_result (clock w) timeout w r"
    unfolding backend_result_def using 1 2 3 4 by blast
  then show ?thesis
    by (simp only: wait_for_backend_def Let_def print_fields r_def)
qed

lemma wait_for_backend_probes:
  "int (http_count (snd (wait_for_backend url timeout w)) - http_count w) \<le> max 0 timeout"
  using wait_for_backend_result [of w timeout url]
  by (simp add: backend_result_def split: if_splits)

text \<open>
  A timeout of \<open>T\<close> seconds, one or more, that passes without a 200: the function makes
  \<open>T\<close> requests when those before the last take less than a second in total, and fewer
  otherwise.
\<close>

lemma wait_for_backend_exhausted:
  assumes T: "1 \<le> timeout" and f: "\<not> fst (wait_for_backend url timeout w)"
  shows "(request_time w (http_count w) (nat timeout - 1) < 1000 \<longrightarrow>
      http_count (snd (wait_for_backend url timeout w)) - http_count w = nat timeout) \<and>
    (1000 \<le> request_time w (http_count w) (nat timeout - 1) \<longrightarrow>
      http_count (snd (wait_for_backend url timeout w)) - http_count w < nat timeout)"
proof -
  let ?r = "wait_for_backend url timeout w"
  let ?i = "http_count w"
  let ?T = "nat timeout"
  from wait_for_backend_result [of w timeout url] f obtain n where
    n: "http_count (snd ?r) = ?i + n"
    and early: "\<forall>j<n. elapsed w ?i j < 1000 * timeout"
    and late: "1000 * timeout \<le> elapsed w ?i n"
    unfolding backend_result_def by auto
  from T have Ti: "timeout = int ?T" and Tp: "0 < ?T" by simp_all
  have e: "elapsed w ?i (?T - 1) = 1000 * timeout - 1000 + int (request_time w ?i (?T - 1))"
    using T by (simp add: elapsed_def of_nat_diff)
  have le: "n \<le> ?T"
  proof (rule ccontr)
    assume "\<not> n \<le> ?T"
    then have "?T < n" by simp
    with early have "elapsed w ?i ?T < 1000 * timeout" by simp
    with elapsed_lower [of ?T w ?i] Ti show False by linarith
  qed
  have a: "n = ?T" if "request_time w ?i (?T - 1) < 1000"
  proof (rule ccontr)
    assume "n \<noteq> ?T"
    with le have "n \<le> ?T - 1" by simp
    from elapsed_mono [OF this, of w ?i] late e that show False by linarith
  qed
  have b: "n < ?T" if "1000 \<le> request_time w ?i (?T - 1)"
  proof (rule ccontr)
    assume "\<not> n < ?T"
    with Tp have "?T - 1 < n" by simp
    with early have "elapsed w ?i (?T - 1) < 1000 * timeout" by simp
    with e that show False by linarith
  qed
  from a b show ?thesis unfolding n by simp
qed

lemma wait_for_server_exhausted:
  assumes "\<forall>j<timeout. \<not> probe_ok w (http_count w + j)"
  shows "fst (wait_for_server port timeout w) = False \<and>
    http_count (snd (wait_for_server port timeout w)) = http_count w + timeout \<and>
    trace (snd (wait_for_server port timeout w)) =
      trace w @ waiting_rounds (''http://localhost:'' @ decimal port @ ''/'') port timeout
        @ [Print (ServerNotReady timeout)]"
proof -
  let ?r = "wait_for_server_loop (''http://localhost:'' @ decimal port @ ''/'') port timeout w"
  note L = wait_for_server_loop_exhausted
    [OF assms, of "''http://localhost:'' @ decimal port @ ''/''" port]
  have "wait_for_server port timeout w = (False, print (ServerNotReady timeout) (snd ?r))"
    using L by (cases ?r) (simp add: wait_for_server_def)
  with L show ?thesis by (simp add: print_fields)
qed

lemma wait_for_server_ready:
  assumes "k < timeout" "\<forall>j<k. \<not> probe_ok w (http_count w + j)" "probe_ok w (http_count w + k)"
  shows "fst (wait_for_server port timeout w) = True \<and>
    http_count (snd (wait_for_server port timeout w)) = http_count w + k + 1 \<and>
    trace (snd (wait_for_server port timeout w)) =
      trace w @ waiting_rounds (''http://localhost:'' @ decimal port @ ''/'') port k
        @ [HttpGet (''http://localhost:'' @ decimal port @ ''/''), Print (ServerReady port)]"
proof -
  let ?r = "wait_for_server_loop (''http://localhost:'' @ decimal port @ ''/'') port timeout w"
  note L = wait_for_server_loop_ready
    [OF assms, of "''http://localhost:'' @ decimal port @ ''/''" port]
  have "wait_for_server port timeout w = (True, snd ?r)"
    using L by (cases ?r) (simp add: wait_for_server_def)
  with L show ?thesis by simp
qed

lemma wait_for_backend_ready:
  assumes no: "\<forall>j<k. \<not> probe_ok w (http_count w + j)"
    and ok: "probe_ok w (http_count w + k)"
    and t: "elapsed w (http_count w) k < 1000 * timeout"
  shows "fst (wait_for_backend url timeout w) \<and>
    http_count (snd (wait_for_backend url timeout w)) = http_count w + k + 1"
proof -
  let ?r = "wait_for_backend url timeout w"
  let ?i = "http_count w"
  note R = wait_for_backend_result [of w timeout url, unfolded backend_result_def]
  have f: "fst ?r"
  proof (rule ccontr)
    assume "\<not> fst ?r"
    with R obtain n where n: "\<forall>j<n. \<not> probe_ok w (?i + j)"
      and late: "1000 * timeout \<le> elapsed w ?i n" by auto
    from n ok have "n \<le> k" by (meson not_le)
    from elapsed_mono [OF this, of w ?i] late t show False by linarith
  qed
  with R obtain k' where c: "http_count (snd ?r) = ?i + k' + 1"
    and ok': "probe_ok w (?i + k')" and no': "\<forall>j<k'. \<not> probe_ok w (?i + j)" by auto
  from no ok' have "\<not> k' < k" by blast
  moreover from no' ok have "\<not> k < k'" by blast
  ultimately have "k' = k" by simp
  with f c show ?thesis by simp
qed

text \<open>
  C3, as the code has it. \<^verbatim>\<open>wait_for_server\<close> counts attempts: with the first 200
  at attempt \<open>k + 1\<close>, for \<open>k\<close> below \<open>timeout\<close>, it returns \<open>True\<close> after exactly
  \<open>k + 1\<close> requests, each failed one followed by a sleep of one second; with no 200 among
  \<open>timeout\<close> attempts it returns \<open>False\<close> after exactly \<open>timeout\<close> requests.
  \<^verbatim>\<open>wait_for_backend\<close> counts time: it makes the next request while less than
  \<open>seconds\<close> seconds have passed on the clock, and sleeps one second after each failed
  request. It returns \<open>True\<close> with the first 200, when the request that finds it starts
  in time. It returns \<open>False\<close> after \<open>n\<close> failed requests, where \<open>n\<close> is the first number
  of rounds that take \<open>seconds\<close> seconds or more, the requests and the sleeps together.
  It makes at most \<open>seconds\<close> requests. When it returns \<open>False\<close>, it has made exactly
  \<open>seconds\<close> requests if those before the last took less than one second in total, and
  fewer if they took a second or more.
\<close>

theorem readiness_pollers_bounded:
  "(\<forall>k. k < timeout \<and> (\<forall>j<k. \<not> probe_ok w (http_count w + j)) \<and>
        probe_ok w (http_count w + k) \<longrightarrow>
      fst (wait_for_server port timeout w) = True \<and>
      http_count (snd (wait_for_server port timeout w)) = http_count w + k + 1 \<and>
      trace (snd (wait_for_server port timeout w)) =
        trace w @ waiting_rounds (''http://localhost:'' @ decimal port @ ''/'') port k
          @ [HttpGet (''http://localhost:'' @ decimal port @ ''/''), Print (ServerReady port)]) \<and>
   ((\<forall>j<timeout. \<not> probe_ok w (http_count w + j)) \<longrightarrow>
      fst (wait_for_server port timeout w) = False \<and>
      http_count (snd (wait_for_server port timeout w)) = http_count w + timeout \<and>
      trace (snd (wait_for_server port timeout w)) =
        trace w @ waiting_rounds (''http://localhost:'' @ decimal port @ ''/'') port timeout
          @ [Print (ServerNotReady timeout)]) \<and>
   backend_result (clock v) seconds v (wait_for_backend url seconds v) \<and>
   (\<forall>k. (\<forall>j<k. \<not> probe_ok v (http_count v + j)) \<and> probe_ok v (http_count v + k) \<and>
        elapsed v (http_count v) k < 1000 * seconds \<longrightarrow>
      fst (wait_for_backend url seconds v) \<and>
      http_count (snd (wait_for_backend url seconds v)) = http_count v + k + 1) \<and>
   int (http_count (snd (wait_for_backend url seconds v)) - http_count v) \<le> max 0 seconds \<and>
   (1 \<le> seconds \<and> \<not> fst (wait_for_backend url seconds v) \<longrightarrow>
      (request_time v (http_count v) (nat seconds - 1) < 1000 \<longrightarrow>
         http_count (snd (wait_for_backend url seconds v)) - http_count v = nat seconds) \<and>
      (1000 \<le> request_time v (http_count v) (nat seconds - 1) \<longrightarrow>
         http_count (snd (wait_for_backend url seconds v)) - http_count v < nat seconds))"
  using wait_for_server_ready [of _ timeout w port] wait_for_server_exhausted [of timeout w port]
    wait_for_backend_result [of v seconds url] wait_for_backend_probes [of url seconds v]
    wait_for_backend_ready [of _ v seconds url] wait_for_backend_exhausted [of seconds url v]
  by blast

text \<open>
  A server that answers 200 to the third of at most 30 attempts, and a backend polled for
  three seconds: with requests that fail after one millisecond each it is asked three
  times, with requests that fail after one second each, less than three times.
\<close>

theorem readiness_pollers_bounded_witness:
  "fst (wait_for_server 11434 30 third_probe_world) = True \<and>
   http_count (snd (wait_for_server 11434 30 third_probe_world)) = 3 \<and>
   trace (snd (wait_for_server 11434 30 third_probe_world)) =
     [HttpGet ''http://localhost:11434/'', Print (WaitingForServer 11434), Sleep 1,
      HttpGet ''http://localhost:11434/'', Print (WaitingForServer 11434), Sleep 1,
      HttpGet ''http://localhost:11434/'', Print (ServerReady 11434)] \<and>
   \<not> fst (wait_for_backend ''http://localhost:8080'' 3 millisecond_world) \<and>
   http_count (snd (wait_for_backend ''http://localhost:8080'' 3 millisecond_world)) = 3 \<and>
   \<not> fst (wait_for_backend ''http://localhost:8080'' 3 one_second_world) \<and>
   http_count (snd (wait_for_backend ''http://localhost:8080'' 3 one_second_world)) < 3"
proof -
  have h: "2 < (30::nat) \<and>
      (\<forall>j<2. \<not> probe_ok third_probe_world (http_count third_probe_world + j)) \<and>
      probe_ok third_probe_world (http_count third_probe_world + 2)"
    by (simp add: probe_ok_def third_probe_world_def quiet_world_def)
  note d = decimal_port
  have f: "http_count third_probe_world = 0" "trace third_probe_world = []"
    by (simp_all add: third_probe_world_def quiet_world_def)
  have r: "waiting_rounds u p 2 = [HttpGet u, Print (WaitingForServer p), Sleep 1,
      HttpGet u, Print (WaitingForServer p), Sleep 1]" for u p
    by (simp add: waiting_rounds_def numeral_2_eq_2)
  let ?m = "wait_for_backend ''http://localhost:8080'' 3 millisecond_world"
  let ?s = "wait_for_backend ''http://localhost:8080'' 3 one_second_world"
  note M = readiness_pollers_bounded [where timeout = 30 and w = third_probe_world
      and port = 11434 and seconds = 3 and v = millisecond_world
      and url = "''http://localhost:8080''"]
  note S = readiness_pollers_bounded [where timeout = 30 and w = third_probe_world
      and port = 11434 and seconds = 3 and v = one_second_world
      and url = "''http://localhost:8080''"]
  from M h
  have 1: "fst (wait_for_server 11434 30 third_probe_world) = True \<and>
      http_count (snd (wait_for_server 11434 30 third_probe_world)) =
        http_count third_probe_world + 2 + 1 \<and>
      trace (snd (wait_for_server 11434 30 third_probe_world)) =
        trace third_probe_world
          @ waiting_rounds (''http://localhost:'' @ decimal 11434 @ ''/'') 11434 2
          @ [HttpGet (''http://localhost:'' @ decimal 11434 @ ''/''), Print (ServerReady 11434)]"
    by blast
  have pm: "\<not> probe_ok millisecond_world j" and ps: "\<not> probe_ok one_second_world j" for j
    by (simp_all add: probe_ok_def millisecond_world_def one_second_world_def quiet_world_def)
  have cm: "http_count millisecond_world = 0" and cs: "http_count one_second_world = 0"
    by (simp_all add: millisecond_world_def one_second_world_def quiet_world_def)
  have tm: "request_time millisecond_world 0 (nat 3 - 1) = 2"
    and ts: "request_time one_second_world 0 (nat 3 - 1) = 2000"
    by (simp_all add: request_time_def millisecond_world_def one_second_world_def
        quiet_world_def upt_rec [of 0] upt_rec [of 1] upt_rec [of "Suc 0"])
  from M have "backend_result (clock millisecond_world) 3 millisecond_world ?m" by blast
  with pm have fm: "\<not> fst ?m" unfolding backend_result_def by blast
  from S have "backend_result (clock one_second_world) 3 one_second_world ?s" by blast
  with ps have fs: "\<not> fst ?s" unfolding backend_result_def by blast
  from M fm tm have 2: "http_count (snd ?m) - http_count millisecond_world = nat 3"
    unfolding cm by simp
  from S fs ts have 3: "http_count (snd ?s) - http_count one_second_world < nat 3"
    unfolding cs by simp
  from 1 2 3 fm fs show ?thesis by (simp add: d f r cm cs)
qed


text \<open>
  C3 as the claim states it fails for \<^verbatim>\<open>wait_for_backend\<close>: with a timeout of 3
  and requests that fail after one second each, no attempt succeeds, and the function
  returns \<open>False\<close> having made two requests, not three.
\<close>

theorem wait_for_backend_fewer_probes:
  "fst (wait_for_backend ''http://localhost:8080'' 3 one_second_world) = False \<and>
   http_count one_second_world = 0 \<and>
   http_count (snd (wait_for_backend ''http://localhost:8080'' 3 one_second_world)) = 2"
  by (simp add: run_defs one_second_world_def quiet_world_def cong: run_congs)

section \<open>Properties of \<^verbatim>\<open>kill_process_on_port\<close> and \<^verbatim>\<open>start_ollama\<close>\<close>

lemma os_kill_fields:
  "fst (os_kill pid w) = kill_script w (kill_count w)"
  "trace (snd (os_kill pid w)) = trace w @ [Kill pid]"
  "kill_count (snd (os_kill pid w)) = Suc (kill_count w)"
  "kill_script (snd (os_kill pid w)) = kill_script w"
  "port_count (snd (os_kill pid w)) = port_count w"
  "port_script (snd (os_kill pid w)) = port_script w"
  by (simp_all add: os_kill_def emit_def)

lemma print_more_fields:
  "kill_count (print m w) = kill_count w"
  "kill_script (print m w) = kill_script w"
  "port_count (print m w) = port_count w"
  "port_script (print m w) = port_script w"
  "lsof_count (print m w) = lsof_count w"
  "lsof_script (print m w) = lsof_script w"
  "exec_count (print m w) = exec_count w"
  "exec_script (print m w) = exec_script w"
  by (simp_all add: print_def emit_def)

lemma kill_pids_Cons:
  "kill_pids port (Some pid # entries) w =
     (if kill_script w (kill_count w)
      then (False, snd (os_kill pid (print (KillingPid port (Some pid)) w)))
      else kill_pids port entries (snd (os_kill pid (print (KillingPid port (Some pid)) w))))"
  by (simp add: Let_def os_kill_fields print_more_fields split: prod.splits bool.splits)
    (metis fst_conv os_kill_fields(1) print_more_fields(1,2) snd_conv)

lemma kills_Cons: "kills port (pid # pids) = [Print (KillingPid port (Some pid)), Kill pid] @ kills port pids"
  by (simp add: kills_def)

lemma killed_fields:
  fixes w :: world and pid :: int and port :: nat
  defines "w1 \<equiv> snd (os_kill pid (print (KillingPid port (Some pid)) w))"
  shows "trace w1 = trace w @ [Print (KillingPid port (Some pid)), Kill pid]"
    and "kill_count w1 = Suc (kill_count w)"
    and "kill_script w1 = kill_script w"
    and "port_count w1 = port_count w"
    and "port_script w1 = port_script w"
  by (simp_all add: w1_def os_kill_fields print_more_fields print_fields)

lemma kill_pids_ok:
  "\<forall>i<length pids. \<not> kill_script w (kill_count w + i) \<Longrightarrow>
   fst (kill_pids port (map Some pids) w) = True \<and>
   trace (snd (kill_pids port (map Some pids) w)) = trace w @ kills port pids"
proof (induction pids arbitrary: w)
  case Nil
  show ?case by (simp add: kills_def)
next
  case (Cons pid pids)
  let ?w1 = "snd (os_kill pid (print (KillingPid port (Some pid)) w))"
  note flds = killed_fields [of pid port w]
  from Cons.prems have first: "\<not> kill_script w (kill_count w)" by fastforce
  have "\<forall>i<length pids. \<not> kill_script ?w1 (kill_count ?w1 + i)"
    unfolding flds using Cons.prems by fastforce
  from Cons.IH [OF this] first show ?case
    unfolding list.map kill_pids_Cons flds kills_Cons by simp
qed

lemma kill_pids_general:
  "port_count (snd (kill_pids port entries w)) = port_count w \<and>
   port_script (snd (kill_pids port entries w)) = port_script w \<and>
   (\<exists>es. trace (snd (kill_pids port entries w)) = trace w @ es \<and> list_all kill_event es) \<and>
   (fst (kill_pids port entries w) \<longrightarrow>
      (\<exists>pids. entries = map Some pids \<and> (\<forall>i<length pids. \<not> kill_script w (kill_count w + i))))"
proof (induction entries arbitrary: w)
  case Nil
  show ?case by simp
next
  case (Cons entry entries)
  show ?case
  proof (cases entry)
    case None
    then show ?thesis by (simp add: Let_def print_fields print_more_fields)
  next
    case (Some pid)
    let ?w1 = "snd (os_kill pid (print (KillingPid port (Some pid)) w))"
    note flds = killed_fields [of pid port w]
    show ?thesis
    proof (cases "kill_script w (kill_count w)")
      case True
      then show ?thesis unfolding Some kill_pids_Cons by (simp add: flds)
    next
      case False
      from Cons.IH [of ?w1] obtain es where
        p: "port_count (snd (kill_pids port entries ?w1)) = port_count w"
          "port_script (snd (kill_pids port entries ?w1)) = port_script w"
        and t: "trace (snd (kill_pids port entries ?w1)) =
          trace w @ [Print (KillingPid port (Some pid)), Kill pid] @ es"
        and k: "list_all kill_event es"
        and c: "fst (kill_pids port entries ?w1) \<longrightarrow>
          (\<exists>pids. entries = map Some pids \<and>
             (\<forall>i<length pids. \<not> kill_script w (Suc (kill_count w) + i)))"
        unfolding flds by auto
      have c': "\<exists>pids. Some pid # entries = map Some pids \<and>
          (\<forall>i<length pids. \<not> kill_script w (kill_count w + i))"
        if "fst (kill_pids port entries ?w1)"
      proof -
        from c that obtain pids where e: "entries = map Some pids"
          and n: "\<forall>i<length pids. \<not> kill_script w (Suc (kill_count w) + i)" by blast
        have "\<forall>i<length (pid # pids). \<not> kill_script w (kill_count w + i)"
        proof (intro allI impI)
          fix i assume "i < length (pid # pids)"
          with n False show "\<not> kill_script w (kill_count w + i)" by (cases i) simp_all
        qed
        with e show ?thesis by (intro exI [of _ "pid # pids"]) simp
      qed
      have "\<exists>es'. trace (snd (kill_pids port entries ?w1)) = trace w @ es' \<and>
          list_all kill_event es'"
        using t k by (intro exI [of _ "[Print (KillingPid port (Some pid)), Kill pid] @ es"]) simp
      with p c' False show ?thesis unfolding Some kill_pids_Cons by simp
    qed
  qed
qed

lemma run_lsof_fields:
  "fst (run_lsof port w) = lsof_script w (lsof_count w)"
  "trace (snd (run_lsof port w)) = trace w @ [Lsof port]"
  "kill_count (snd (run_lsof port w)) = kill_count w"
  "kill_script (snd (run_lsof port w)) = kill_script w"
  "port_count (snd (run_lsof port w)) = port_count w"
  "port_script (snd (run_lsof port w)) = port_script w"
  by (simp_all add: run_lsof_def emit_def)

lemma sleep_more_fields:
  "port_count (sleep n w) = port_count w"
  "port_script (sleep n w) = port_script w"
  "exec_count (sleep n w) = exec_count w"
  "exec_script (sleep n w) = exec_script w"
  by (simp_all add: sleep_def emit_def)

lemma kill_event_pass: "list_all kill_event es \<Longrightarrow> list_all pass_event es"
proof (induction es)
  case Nil
  show ?case by simp
next
  case (Cons e es)
  then have "kill_event e" by simp
  then have "pass_event e" by (induction e rule: kill_event.induct) simp_all
  with Cons show ?case by simp
qed

lemma kill_event_no_sleep: "list_all kill_event es \<Longrightarrow> Sleep n \<notin> set es"
  by (induction es) auto

lemma kill_process_on_port_result:
  "port_count (kill_process_on_port port w) = port_count w \<and>
   port_script (kill_process_on_port port w) = port_script w \<and>
   (\<exists>es. trace (kill_process_on_port port w) = trace w @ Lsof port # es \<and>
      list_all pass_event es \<and>
      (\<forall>pids. pass_completes w pids \<longrightarrow> es = kills port pids @ [Sleep 2]) \<and>
      (lsof_script w (lsof_count w) = LsofOutput [] \<longrightarrow> es = []) \<and>
      (lsof_script w (lsof_count w) = LsofRaises \<longrightarrow> es = [Print (KillFailed port)]) \<and>
      (Sleep 2 \<in> set es \<longrightarrow> (\<exists>pids. pass_completes w pids)))"
proof -
  obtain res w1 where g: "run_lsof port w = (res, w1)" by (cases "run_lsof port w")
  have res: "lsof_script w (lsof_count w) = res"
    and l: "trace w1 = trace w @ [Lsof port]" "kill_count w1 = kill_count w"
      "kill_script w1 = kill_script w" "port_count w1 = port_count w"
      "port_script w1 = port_script w"
    using run_lsof_fields [of port w] by (simp_all add: g)
  show ?thesis
  proof (cases res)
    case LsofRaises
    with g have v: "kill_process_on_port port w = print (KillFailed port) w1"
      by (simp add: kill_process_on_port_def)
    show ?thesis
      unfolding v using res LsofRaises
      by (simp add: print_fields print_more_fields l pass_completes_def)
  next
    case (LsofOutput entries)
    show ?thesis
    proof (cases "entries = []")
      case True
      with g LsofOutput have v: "kill_process_on_port port w = w1"
        by (simp add: kill_process_on_port_def)
      show ?thesis
        unfolding v using res LsofOutput True by (simp add: l pass_completes_def)
    next
      case False
      let ?k = "kill_pids port entries w1"
      from kill_pids_general [of port entries w1] obtain es where
        p: "port_count (snd ?k) = port_count w" "port_script (snd ?k) = port_script w"
        and t: "trace (snd ?k) = trace w @ Lsof port # es"
        and k: "list_all kill_event es"
        and c: "fst ?k \<longrightarrow> (\<exists>pids. entries = map Some pids \<and>
              (\<forall>i<length pids. \<not> kill_script w (kill_count w + i)))"
        unfolding l by auto
      have uniq: "pids = pids'" if "pass_completes w pids" "entries = map Some pids'" for pids pids'
        using that res LsofOutput by (simp add: pass_completes_def inj_map_eq_map)
      show ?thesis
      proof (cases "fst ?k")
        case True
        with g LsofOutput False have v: "kill_process_on_port port w = sleep 2 (snd ?k)"
          by (cases ?k) (simp add: kill_process_on_port_def)
        from c True obtain pids where e: "entries = map Some pids"
          and n: "\<forall>i<length pids. \<not> kill_script w (kill_count w + i)" by blast
        have n1: "\<forall>i<length pids. \<not> kill_script w1 (kill_count w1 + i)"
          unfolding l using n .
        from kill_pids_ok [OF n1, of port] t e have es: "es = kills port pids"
          by (simp add: l)
        have pc: "pass_completes w pids"
          using res LsofOutput e False n by (simp add: pass_completes_def)
        have "\<forall>pids'. pass_completes w pids' \<longrightarrow> es @ [Sleep 2] = kills port pids' @ [Sleep 2]"
          using uniq e es by blast
        moreover have "list_all pass_event (es @ [Sleep 2])"
          using kill_event_pass [OF k] by simp
        ultimately show ?thesis
          unfolding v using p t pc res LsofOutput False
          by (intro conjI exI [of _ "es @ [Sleep 2]"])
            (auto simp: sleep_fields sleep_more_fields)
      next
        case no: False
        with g LsofOutput False have v: "kill_process_on_port port w = print (KillFailed port) (snd ?k)"
          by (cases ?k) (simp add: kill_process_on_port_def)
        have nc: "\<not> pass_completes w pids" for pids
        proof
          assume pc: "pass_completes w pids"
          then have e: "entries = map Some pids"
            and n: "\<forall>i<length pids. \<not> kill_script w (kill_count w + i)"
            using res LsofOutput by (simp_all add: pass_completes_def)
          have "\<forall>i<length pids. \<not> kill_script w1 (kill_count w1 + i)"
            unfolding l using n .
          from kill_pids_ok [OF this, of port] e no show False by simp
        qed
        have "list_all pass_event (es @ [Print (KillFailed port)])"
          using kill_event_pass [OF k] by simp
        moreover have "Sleep 2 \<notin> set (es @ [Print (KillFailed port)])"
          using kill_event_no_sleep [OF k] by simp
        ultimately show ?thesis
          unfolding v using p t nc res LsofOutput False
          by (intro conjI exI [of _ "es @ [Print (KillFailed port)]"])
            (auto simp: print_fields print_more_fields)
      qed
    qed
  qed
qed

lemma is_port_free_fields:
  "fst (is_port_free port w) = port_script w (port_count w)"
  "trace (snd (is_port_free port w)) = trace w @ [PortCheck port]"
  "port_count (snd (is_port_free port w)) = Suc (port_count w)"
  "port_script (snd (is_port_free port w)) = port_script w"
  "lsof_count (snd (is_port_free port w)) = lsof_count w"
  "lsof_script (snd (is_port_free port w)) = lsof_script w"
  "kill_count (snd (is_port_free port w)) = kill_count w"
  "kill_script (snd (is_port_free port w)) = kill_script w"
  by (simp_all add: is_port_free_def emit_def)

lemma extends_session_get: "P (HttpGet url) \<Longrightarrow> extends P w (snd (session_get url w))"
  unfolding session_get_def by (rule extends_requests_get)

lemma extends_wait_for_server_loop:
  assumes "P (HttpGet url)" "P (Sleep 1)" "P (Print (ServerReady port))"
    "P (Print (WaitingForServer port))"
  shows "extends P w (snd (wait_for_server_loop url port n w))"
proof (induction n arbitrary: w)
  case 0
  show ?case by (simp add: extends_refl)
next
  case (Suc n)
  let ?w1 = "snd (session_get url w)"
  have g: "extends P w ?w1" by (rule extends_session_get) (rule assms)
  show ?case
  proof (cases "is_200 (fst (session_get url w))")
    case True
    have "extends P ?w1 (print (ServerReady port) ?w1)" by (rule extends_print) (rule assms)
    with g have "extends P w (print (ServerReady port) ?w1)" by (rule extends_trans)
    with True show ?thesis unfolding wait_for_server_loop_unfold by simp
  next
    case False
    let ?w2 = "print (WaitingForServer port) ?w1"
    have "extends P ?w1 ?w2" by (rule extends_print) (rule assms)
    with g have "extends P w ?w2" by (rule extends_trans)
    moreover have "extends P ?w2 (sleep 1 ?w2)" by (rule extends_sleep) (rule assms)
    ultimately have "extends P w (sleep 1 ?w2)" by (rule extends_trans)
    from this Suc [of "sleep 1 ?w2"]
    have "extends P w (snd (wait_for_server_loop url port n (sleep 1 ?w2)))"
      by (rule extends_trans)
    with False show ?thesis unfolding wait_for_server_loop_unfold by simp
  qed
qed

lemma extends_wait_for_server:
  assumes "\<And>u. P (HttpGet u)" "P (Sleep 1)" "P (Print (ServerReady port))"
    "P (Print (WaitingForServer port))" "P (Print (ServerNotReady timeout))"
  shows "extends P w (snd (wait_for_server port timeout w))"
proof -
  let ?r = "wait_for_server_loop (''http://localhost:'' @ decimal port @ ''/'') port timeout w"
  have e: "extends P w (snd ?r)" by (rule extends_wait_for_server_loop) (rule assms)+
  have "extends P (snd ?r) (print (ServerNotReady timeout) (snd ?r))"
    by (rule extends_print) (rule assms)
  with e have "extends P w (print (ServerNotReady timeout) (snd ?r))" by (rule extends_trans)
  with e show ?thesis by (cases ?r) (auto simp: wait_for_server_def split: bool.splits)
qed

lemma start_ollama_checks:
  "start_ollama w =
     (let w1 = snd (is_port_free 11434 (print CheckingPort w));
          w2 = (if \<not> port_script w (port_count w) then kill_process_on_port 11434 w1 else w1);
          w3 = snd (is_port_free 11434 w2)
      in if \<not> port_script w2 (port_count w2) then (Inr False, print StillOccupied w3)
         else
           (case run_shell ''nohup ollama serve > ollama_start.log 2>&1 &''
                   (print StartingOllama (print PortFree w3)) of
              (ExecRaises, w4) \<Rightarrow> (Inl OSError, w4)
            | (Exited status out err, w4) \<Rightarrow>
                (case wait_for_server 11434 30 (print ServeIssued w4) of
                   (server_ready, w5) \<Rightarrow> (Inr server_ready, w5))))"
  by (simp add: start_ollama_def Let_def is_port_free_def print_def emit_def
      split: prod.splits)

lemma launch_extends:
  "extends launch_event w3
     (snd (case run_shell cmd (print StartingOllama (print PortFree w3)) of
             (ExecRaises, w4) \<Rightarrow> (Inl OSError, w4)
           | (Exited status out err, w4) \<Rightarrow>
               (case wait_for_server 11434 30 (print ServeIssued w4) of
                  (server_ready, w5) \<Rightarrow> (Inr server_ready, w5))))"
proof -
  let ?wa = "print StartingOllama (print PortFree w3)"
  let ?w4 = "snd (run_shell cmd ?wa)"
  have a: "extends launch_event w3 ?wa"
    by (simp add: extends_def print_def emit_def)
  have "extends launch_event ?wa ?w4"
    by (simp add: extends_def run_shell_def emit_def)
  with a have b: "extends launch_event w3 ?w4" by (rule extends_trans)
  have "extends launch_event ?w4 (print ServeIssued ?w4)" by (rule extends_print) simp
  with b have c: "extends launch_event w3 (print ServeIssued ?w4)" by (rule extends_trans)
  have "extends launch_event (print ServeIssued ?w4)
      (snd (wait_for_server 11434 30 (print ServeIssued ?w4)))"
    by (rule extends_wait_for_server) simp_all
  with c have d: "extends launch_event w3 (snd (wait_for_server 11434 30 (print ServeIssued ?w4)))"
    by (rule extends_trans)
  from b d show ?thesis
    by (cases "run_shell cmd ?wa") (auto split: exec_result.splits prod.splits)
qed

text \<open>
  C7, as the code has it. When the first check finds the port occupied,
  \<^verbatim>\<open>start_ollama\<close> makes one remediation pass and checks the port once more:
  what it does is the first check, one \<^verbatim>\<open>lsof\<close>, the events \<open>es\<close> of the pass,
  the second check, and a rest without any further check, \<^verbatim>\<open>lsof\<close> or kill. When
  \<^verbatim>\<open>lsof\<close> lists processes and no kill raises, the pass kills each in order and
  then sleeps 2 seconds; the sleep happens in no other case: not when \<^verbatim>\<open>lsof\<close>
  prints nothing, and not when \<^verbatim>\<open>lsof\<close>, \<^verbatim>\<open>int\<close> or a kill raises. When
  the second check finds the port occupied, the result is \<open>False\<close> and the rest is the
  one message: no shell is spawned and no request is made.
\<close>

theorem start_ollama_single_remediation:
  assumes "\<not> port_script w (port_count w)"
  shows "\<exists>es rest.
     trace (snd (start_ollama w)) =
       trace w @ [Print CheckingPort, PortCheck 11434, Lsof 11434] @ es
         @ [PortCheck 11434] @ rest \<and>
     list_all pass_event es \<and>
     (\<forall>pids. pass_completes w pids \<longrightarrow> es = kills 11434 pids @ [Sleep 2]) \<and>
     (Sleep 2 \<in> set es \<longrightarrow> (\<exists>pids. pass_completes w pids)) \<and>
     (lsof_script w (lsof_count w) = LsofOutput [] \<longrightarrow> es = []) \<and>
     (lsof_script w (lsof_count w) = LsofRaises \<longrightarrow> es = [Print (KillFailed 11434)]) \<and>
     list_all launch_event rest \<and>
     (\<not> port_script w (port_count w + 1) \<longrightarrow>
        fst (start_ollama w) = Inr False \<and> rest = [Print StillOccupied])"
proof -
  let ?w1 = "snd (is_port_free 11434 (print CheckingPort w))"
  let ?w2 = "kill_process_on_port 11434 ?w1"
  let ?w3 = "snd (is_port_free 11434 ?w2)"
  have f1: "trace ?w1 = trace w @ [Print CheckingPort, PortCheck 11434]"
    "port_count ?w1 = Suc (port_count w)" "port_script ?w1 = port_script w"
    "lsof_count ?w1 = lsof_count w" "lsof_script ?w1 = lsof_script w"
    "kill_count ?w1 = kill_count w" "kill_script ?w1 = kill_script w"
    by (simp_all add: is_port_free_fields print_fields print_more_fields)
  have pc: "pass_completes ?w1 = pass_completes w"
    by (rule ext) (simp only: pass_completes_def f1)
  from kill_process_on_port_result [of 11434 ?w1] obtain es where
    p2: "port_count ?w2 = Suc (port_count w)" "port_script ?w2 = port_script w"
    and t2: "trace ?w2 = trace w @ [Print CheckingPort, PortCheck 11434, Lsof 11434] @ es"
    and es: "list_all pass_event es"
      "\<forall>pids. pass_completes w pids \<longrightarrow> es = kills 11434 pids @ [Sleep 2]"
      "lsof_script w (lsof_count w) = LsofOutput [] \<longrightarrow> es = []"
      "lsof_script w (lsof_count w) = LsofRaises \<longrightarrow> es = [Print (KillFailed 11434)]"
      "Sleep 2 \<in> set es \<longrightarrow> (\<exists>pids. pass_completes w pids)"
    unfolding f1 pc by auto
  have t3: "trace ?w3 =
      trace w @ [Print CheckingPort, PortCheck 11434, Lsof 11434] @ es @ [PortCheck 11434]"
    by (simp add: is_port_free_fields t2)
  let ?launch = "case run_shell ''nohup ollama serve > ollama_start.log 2>&1 &''
                   (print StartingOllama (print PortFree ?w3)) of
              (ExecRaises, w4) \<Rightarrow> (Inl OSError, w4)
            | (Exited status out err, w4) \<Rightarrow>
                (case wait_for_server 11434 30 (print ServeIssued w4) of
                   (server_ready, w5) \<Rightarrow> (Inr server_ready, w5))"
  have so: "start_ollama w =
      (if \<not> port_script w (Suc (port_count w)) then (Inr False, print StillOccupied ?w3)
       else ?launch)"
    using assms by (simp add: start_ollama_checks [of w] Let_def p2)
  have "\<exists>rest. trace (snd (start_ollama w)) = trace ?w3 @ rest \<and> list_all launch_event rest \<and>
      (\<not> port_script w (port_count w + 1) \<longrightarrow>
         fst (start_ollama w) = Inr False \<and> rest = [Print StillOccupied])"
  proof (cases "port_script w (Suc (port_count w))")
    case False
    then show ?thesis
      unfolding so by (intro exI [of _ "[Print StillOccupied]"]) (simp add: print_fields)
  next
    case True
    from launch_extends [of ?w3 "''nohup ollama serve > ollama_start.log 2>&1 &''"]
    obtain rest where "trace (snd ?launch) = trace ?w3 @ rest" "list_all launch_event rest"
      unfolding extends_def by blast
    with True show ?thesis unfolding so by (intro exI [of _ rest]) simp
  qed
  then obtain rest where
    "trace (snd (start_ollama w)) = trace ?w3 @ rest" "list_all launch_event rest"
    "\<not> port_script w (port_count w + 1) \<longrightarrow>
       fst (start_ollama w) = Inr False \<and> rest = [Print StillOccupied]"
    by blast
  with es show ?thesis
    unfolding t3 by (intro exI [of _ es] exI [of _ rest]) simp
qed

text \<open>Two owners are killed, the cooldown elapses, the port is still occupied: abort.\<close>

theorem start_ollama_single_remediation_witness:
  "fst (start_ollama stubborn_world) = Inr False \<and>
   trace (snd (start_ollama stubborn_world)) =
     [Print CheckingPort, PortCheck 11434, Lsof 11434,
      Print (KillingPid 11434 (Some 4242)), Kill 4242,
      Print (KillingPid 11434 (Some 4243)), Kill 4243, Sleep 2,
      PortCheck 11434, Print StillOccupied]"
proof -
  have a: "\<not> port_script stubborn_world (port_count stubborn_world)"
    "\<not> port_script stubborn_world (port_count stubborn_world + 1)"
    "trace stubborn_world = []"
    by (simp_all add: stubborn_world_def quiet_world_def)
  have b: "pass_completes stubborn_world [4242, 4243]"
    by (simp add: pass_completes_def stubborn_world_def quiet_world_def)
  from start_ollama_single_remediation [OF a(1)] obtain es rest where
    "trace (snd (start_ollama stubborn_world)) =
       trace stubborn_world @ [Print CheckingPort, PortCheck 11434, Lsof 11434] @ es
         @ [PortCheck 11434] @ rest"
    "\<forall>pids. pass_completes stubborn_world pids \<longrightarrow> es = kills 11434 pids @ [Sleep 2]"
    "\<not> port_script stubborn_world (port_count stubborn_world + 1) \<longrightarrow>
        fst (start_ollama stubborn_world) = Inr False \<and> rest = [Print StillOccupied]"
    by blast
  with a b show ?thesis by (simp add: kills_def)
qed

lemmas ollama_defs =
  start_ollama_def is_port_free_def kill_process_on_port_def run_lsof_def os_kill_def
  run_shell_def wait_for_server_def session_get_def requests_get_def
  sleep_def print_def emit_def Let_def

text \<open>
  C7 as the claim states it fails: the port is occupied and \<^verbatim>\<open>lsof\<close> prints
  nothing. No process is killed and no cooldown elapses before the second check.
\<close>

theorem start_ollama_no_cooldown:
  "fst (start_ollama unlisted_world) = Inr False \<and>
   trace (snd (start_ollama unlisted_world)) =
     [Print CheckingPort, PortCheck 11434, Lsof 11434, PortCheck 11434, Print StillOccupied] \<and>
   Sleep 2 \<notin> set (trace (snd (start_ollama unlisted_world)))"
  by (simp add: ollama_defs unlisted_world_def quiet_world_def cong: run_congs)

section \<open>Properties of \<^verbatim>\<open>run_ollama_commands\<close> and \<^verbatim>\<open>main\<close> of ollama\_setup.py\<close>

lemma run_exec_fields:
  "fst (run_exec args w) = exec_script w (exec_count w)"
  "trace (snd (run_exec args w)) = trace w @ [Exec args]"
  "exec_count (snd (run_exec args w)) = Suc (exec_count w)"
  "exec_script (snd (run_exec args w)) = exec_script w"
  "env_file (snd (run_exec args w)) = env_file w"
  by (simp_all add: run_exec_def emit_def)

lemma executed_append: "executed (xs @ ys) = executed xs @ executed ys"
  by (induction xs rule: executed.induct) simp_all

lemma executed_printed: "executed (printed out) = []"
  by (simp add: printed_def split: sum.splits)

lemma executed_surfaced: "executed (surfaced r) = []"
  by (cases r) (simp_all add: executed_append executed_printed)

lemma executed_commands_trace: "executed (commands_trace w i cmds) = cmds"
  by (induction cmds arbitrary: i) (simp_all add: executed_append executed_surfaced)

lemma print_output_result:
  "fst (print_output out w) = (if undecodable out then Inl UnicodeDecodeError else Inr ())"
  "trace (snd (print_output out w)) = trace w @ printed out"
  "exec_count (snd (print_output out w)) = exec_count w"
  "exec_script (snd (print_output out w)) = exec_script w"
  by (auto simp: print_output_def undecodable_def printed_def decode_def print_def emit_def
      split: sum.splits option.splits)

lemma printed_undecodable: "undecodable out \<Longrightarrow> printed out = []"
  by (auto simp: undecodable_def printed_def split: sum.splits)

text \<open>One round of the loop: the exception it raises, or the world the next round starts in.\<close>

lemma run_commands_raises:
  assumes "raised (exec_script w (exec_count w)) = Some e"
  shows "fst (run_commands (cmd # cmds) w) = Inl e \<and>
    trace (snd (run_commands (cmd # cmds) w)) =
      trace w @ [Print (Executing cmd), Exec cmd] @ surfaced (exec_script w (exec_count w))"
proof (cases "exec_script w (exec_count w)")
  case ExecRaises
  with assms have "e = OSError" by simp
  with ExecRaises show ?thesis by (simp add: run_exec_def print_def emit_def)
next
  case (Exited rc out err)
  define w1 where "w1 = snd (run_exec cmd (print (Executing cmd) w))"
  have g: "run_exec cmd (print (Executing cmd) w) = (Exited rc out err, w1)"
    using Exited by (simp add: w1_def run_exec_def print_def emit_def)
  have t: "trace w1 = trace w @ [Print (Executing cmd), Exec cmd]"
    by (simp add: w1_def run_exec_fields print_fields)
  from assms Exited have e: "e = UnicodeDecodeError" and u: "undecodable out \<or> undecodable err"
    by (simp_all split: if_splits)
  obtain r2 w2 where p2: "print_output out w1 = (r2, w2)" by (cases "print_output out w1")
  obtain r3 w3 where p3: "print_output err w2 = (r3, w3)" by (cases "print_output err w2")
  from p2 print_output_result(1,2) [of out w1]
  have r2: "r2 = (if undecodable out then Inl UnicodeDecodeError else Inr ())"
    and t2: "trace w2 = trace w1 @ printed out" by simp_all
  from p3 print_output_result(1,2) [of err w2]
  have r3: "r3 = (if undecodable err then Inl UnicodeDecodeError else Inr ())"
    and t3: "trace w3 = trace w2 @ printed err" by simp_all
  show ?thesis
  proof (cases "undecodable out")
    case True
    with g p2 r2 t2 t e Exited show ?thesis by (simp add: printed_undecodable)
  next
    case False
    with u have "undecodable err" by simp
    with False g p2 p3 r2 r3 t2 t3 t e Exited show ?thesis
      by (simp add: printed_undecodable)
  qed
qed

lemma run_commands_goes_on:
  assumes "raised (exec_script w (exec_count w)) = None"
  shows "\<exists>v. run_commands (cmd # cmds) w = run_commands cmds v \<and>
    exec_count v = Suc (exec_count w) \<and> exec_script v = exec_script w \<and>
    trace v =
      trace w @ [Print (Executing cmd), Exec cmd] @ surfaced (exec_script w (exec_count w))"
proof (cases "exec_script w (exec_count w)")
  case ExecRaises
  with assms show ?thesis by simp
next
  case (Exited rc out err)
  define w1 where "w1 = snd (run_exec cmd (print (Executing cmd) w))"
  have g: "run_exec cmd (print (Executing cmd) w) = (Exited rc out err, w1)"
    using Exited by (simp add: w1_def run_exec_def print_def emit_def)
  have f: "trace w1 = trace w @ [Print (Executing cmd), Exec cmd]"
    "exec_count w1 = Suc (exec_count w)" "exec_script w1 = exec_script w"
    by (simp_all add: w1_def run_exec_fields print_fields print_more_fields)
  from assms Exited have u: "\<not> undecodable out" "\<not> undecodable err"
    by (simp_all split: if_splits)
  obtain r2 w2 where p2: "print_output out w1 = (r2, w2)" by (cases "print_output out w1")
  obtain r3 w3 where p3: "print_output err w2 = (r3, w3)" by (cases "print_output err w2")
  from p2 print_output_result [of out w1] u
  have r2: "r2 = Inr ()" and f2: "trace w2 = trace w1 @ printed out"
    "exec_count w2 = exec_count w1" "exec_script w2 = exec_script w1" by simp_all
  from p3 print_output_result [of err w2] u
  have r3: "r3 = Inr ()" and f3: "trace w3 = trace w2 @ printed err"
    "exec_count w3 = exec_count w2" "exec_script w3 = exec_script w2" by simp_all
  have "run_commands (cmd # cmds) w = run_commands cmds w3"
    using g p2 p3 r2 r3 by simp
  moreover have "exec_count w3 = Suc (exec_count w)" "exec_script w3 = exec_script w"
    "trace w3 = trace w @ [Print (Executing cmd), Exec cmd] @ surfaced (Exited rc out err)"
    using f f2 f3 u by simp_all
  ultimately show ?thesis unfolding Exited by blast
qed

lemma commands_trace_script:
  "exec_script w1 = exec_script w \<Longrightarrow> commands_trace w1 i cmds = commands_trace w i cmds"
  by (induction cmds arbitrary: i) simp_all

text \<open>
  The loop in full: it runs up to the first command that raises, \<open>k\<close> commands after
  the first, or to the end of the list.
\<close>

lemma run_commands_result:
  assumes "k \<le> length cmds"
    and "\<forall>j<k. raised (exec_script w (exec_count w + j)) = None"
    and "k < length cmds \<longrightarrow> raised (exec_script w (exec_count w + k)) \<noteq> None"
  shows "fst (run_commands cmds w) =
      (if k < length cmds then Inl (the (raised (exec_script w (exec_count w + k)))) else Inr ()) \<and>
    trace (snd (run_commands cmds w)) =
      trace w @ commands_trace w (exec_count w) (take (Suc k) cmds)"
  using assms
proof (induction cmds arbitrary: w k)
  case Nil
  then show ?case by simp
next
  case (Cons cmd cmds)
  show ?case
  proof (cases k)
    case 0
    with Cons.prems obtain e where e: "raised (exec_script w (exec_count w)) = Some e" by auto
    from run_commands_raises [OF e, of cmd cmds] e show ?thesis by (simp add: 0)
  next
    case (Suc k')
    with Cons.prems have n: "raised (exec_script w (exec_count w)) = None"
      by (metis add.right_neutral zero_less_Suc)
    from run_commands_goes_on [OF n, of cmd cmds] obtain w1 where
      r: "run_commands (cmd # cmds) w = run_commands cmds w1"
      and c: "exec_count w1 = Suc (exec_count w)" and sc: "exec_script w1 = exec_script w"
      and t: "trace w1 =
        trace w @ [Print (Executing cmd), Exec cmd] @ surfaced (exec_script w (exec_count w))"
      by blast
    have a: "k' \<le> length cmds" using Cons.prems Suc by simp
    have b: "\<forall>j<k'. raised (exec_script w1 (exec_count w1 + j)) = None"
      unfolding c sc using Cons.prems(2) Suc by (metis Suc_less_eq add_Suc_shift)
    have d: "k' < length cmds \<longrightarrow> raised (exec_script w1 (exec_count w1 + k')) \<noteq> None"
      unfolding c sc using Cons.prems(3) Suc by simp
    from Cons.IH [OF a b d] show ?thesis
      unfolding r c sc t commands_trace_script [OF sc] by (simp add: Suc)
  qed
qed

lemma setup_stop_service: "extends setup_event w (stop_service w)"
  by (simp add: stop_service_def run_exec_def print_def emit_def extends_def commands_def
      split: exec_result.splits)

lemma setup_stop_existing_ollama: "extends setup_event w (stop_existing_ollama w)"
proof -
  let ?w1 = "stop_service w"
  have "extends setup_event ?w1
      (sleep 2 (case run_exec [''pkill'', ''-f'', ''ollama serve''] ?w1 of
                  (ExecRaises, w') \<Rightarrow> print PkillFailed w'
                | (Exited status out err, w') \<Rightarrow> print KilledServe w'))"
    by (simp add: run_exec_def print_def emit_def sleep_def extends_def commands_def
        split: exec_result.splits)
  with setup_stop_service [of w] show ?thesis
    unfolding stop_existing_ollama_def Let_def by (rule extends_trans)
qed

lemma kill_pids_env: "env_file (snd (kill_pids port entries w)) = env_file w"
proof (induction entries arbitrary: w)
  case Nil
  show ?case by simp
next
  case (Cons entry entries)
  show ?case
  proof (cases entry)
    case None
    then show ?thesis by (simp add: Let_def print_def emit_def)
  next
    case (Some pid)
    have "env_file (snd (os_kill pid (print (KillingPid port (Some pid)) w))) = env_file w"
      by (simp add: os_kill_def print_def emit_def)
    with Cons.IH show ?thesis unfolding Some kill_pids_Cons by simp
  qed
qed

lemma kill_process_on_port_env: "env_file (kill_process_on_port port w) = env_file w"
proof -
  obtain res w1 where g: "run_lsof port w = (res, w1)" by (cases "run_lsof port w")
  then have e1: "env_file w1 = env_file w" by (auto simp: run_lsof_def emit_def)
  show ?thesis
  proof (cases res)
    case LsofRaises
    with g e1 show ?thesis by (simp add: kill_process_on_port_def print_def emit_def)
  next
    case (LsofOutput entries)
    obtain ok w2 where k: "kill_pids port entries w1 = (ok, w2)"
      by (cases "kill_pids port entries w1")
    with kill_pids_env [of port entries w1] e1 have "env_file w2 = env_file w" by simp
    with g LsofOutput k e1 show ?thesis
      by (cases ok) (simp_all add: kill_process_on_port_def sleep_def print_def emit_def)
  qed
qed

lemma pass_event_setup: "list_all pass_event es \<Longrightarrow> list_all setup_event es"
proof (induction es)
  case Nil
  show ?case by simp
next
  case (Cons e es)
  then have "pass_event e" by simp
  then have "setup_event e" by (induction e rule: pass_event.induct) simp_all
  with Cons show ?case by simp
qed

lemma setup_kill_process_on_port: "extends setup_event w (kill_process_on_port port w)"
proof -
  from kill_process_on_port_result [of port w] obtain es where
    "trace (kill_process_on_port port w) = trace w @ Lsof port # es" "list_all pass_event es"
    by blast
  with pass_event_setup [of es] kill_process_on_port_env [of port w] show ?thesis
    unfolding extends_def by (intro conjI exI [of _ "Lsof port # es"]) simp_all
qed

lemma setup_is_port_free: "extends setup_event w (snd (is_port_free port w))"
  by (simp add: is_port_free_def emit_def extends_def)

lemma setup_launch:
  "extends setup_event w3
     (snd (case run_shell cmd (print StartingOllama (print PortFree w3)) of
             (ExecRaises, w4) \<Rightarrow> (Inl OSError, w4)
           | (Exited status out err, w4) \<Rightarrow>
               (case wait_for_server 11434 30 (print ServeIssued w4) of
                  (server_ready, w5) \<Rightarrow> (Inr server_ready, w5))))"
proof -
  let ?wa = "print StartingOllama (print PortFree w3)"
  let ?w4 = "snd (run_shell cmd ?wa)"
  have a: "extends setup_event w3 ?wa"
    by (simp add: extends_def print_def emit_def)
  have "extends setup_event ?wa ?w4"
    by (simp add: extends_def run_shell_def emit_def)
  with a have b: "extends setup_event w3 ?w4" by (rule extends_trans)
  have "extends setup_event ?w4 (print ServeIssued ?w4)" by (rule extends_print) simp
  with b have c: "extends setup_event w3 (print ServeIssued ?w4)" by (rule extends_trans)
  have "extends setup_event (print ServeIssued ?w4)
      (snd (wait_for_server 11434 30 (print ServeIssued ?w4)))"
    by (rule extends_wait_for_server) simp_all
  with c have d: "extends setup_event w3 (snd (wait_for_server 11434 30 (print ServeIssued ?w4)))"
    by (rule extends_trans)
  from b d show ?thesis
    by (cases "run_shell cmd ?wa") (auto split: exec_result.splits prod.splits)
qed

lemma extends_if:
  "extends P w (snd a) \<Longrightarrow> extends P w (snd b) \<Longrightarrow> extends P w (snd (if c then a else b))"
  by simp

lemma setup_start_ollama: "extends setup_event w (snd (start_ollama w))"
proof -
  let ?w1 = "snd (is_port_free 11434 (print CheckingPort w))"
  let ?w2 = "if \<not> port_script w (port_count w) then kill_process_on_port 11434 ?w1 else ?w1"
  let ?w3 = "snd (is_port_free 11434 ?w2)"
  have "extends setup_event w (print CheckingPort w)" by (rule extends_print) simp
  from this setup_is_port_free have a: "extends setup_event w ?w1" by (rule extends_trans)
  have "extends setup_event ?w1 ?w2"
    by (simp add: extends_refl setup_kill_process_on_port)
  with a have "extends setup_event w ?w2" by (rule extends_trans)
  from this setup_is_port_free have c: "extends setup_event w ?w3" by (rule extends_trans)
  have "extends setup_event ?w3 (print StillOccupied ?w3)" by (rule extends_print) simp
  with c have d: "extends setup_event w (print StillOccupied ?w3)" by (rule extends_trans)
  from c setup_launch [of ?w3 "''nohup ollama serve > ollama_start.log 2>&1 &''"]
  have e: "extends setup_event w
     (snd (case run_shell ''nohup ollama serve > ollama_start.log 2>&1 &''
                 (print StartingOllama (print PortFree ?w3)) of
             (ExecRaises, w4) \<Rightarrow> (Inl OSError, w4)
           | (Exited status out err, w4) \<Rightarrow>
               (case wait_for_server 11434 30 (print ServeIssued w4) of
                  (server_ready, w5) \<Rightarrow> (Inr server_ready, w5))))"
    by (rule extends_trans)
  from d have d': "extends setup_event w (snd (Inr False :: exception + bool, print StillOccupied ?w3))"
    by simp
  show ?thesis
    unfolding start_ollama_checks [of w] Let_def by (rule extends_if [OF d' e])
qed

lemma wait_for_server_loop_numeral:
  "wait_for_server_loop url port (numeral k) w =
     (if is_200 (fst (session_get url w))
      then (True, print (ServerReady port) (snd (session_get url w)))
      else wait_for_server_loop url port (pred_numeral k)
             (sleep 1 (print (WaitingForServer port) (snd (session_get url w)))))"
  by (simp only: numeral_eq_Suc wait_for_server_loop_unfold)

lemmas ollama_run_defs =
  readiness_def ready_world_def stop_existing_ollama_def stop_service_def run_exec_def
  start_ollama_def is_port_free_def kill_process_on_port_def run_lsof_def os_kill_def
  run_shell_def wait_for_server_def wait_for_server_loop_numeral session_get_def
  requests_get_def sleep_def print_def emit_def Let_def decimal_port

lemmas command_defs =
  ollama_main_def run_ollama_commands_def commands_def run_commands.simps print_output_def
  decode_def utf8.simps

lemmas command_congs =
  run_congs exec_result.case_cong_weak sum.case_cong_weak list.case_cong_weak

lemma decode_examples:
  "decode ''NAME'' = Inr [78, 65, 77, 69]"
  "decode [CHR 0xC3, CHR 0xA9] = Inr [233]"
  "decode [CHR 0xE2, CHR 0x82, CHR 0xAC] = Inr [8364]"
  "decode [CHR 0xF0, CHR 0x9F, CHR 0x98, CHR 0x80] = Inr [128512]"
  "decode [CHR 0xFF] = Inl UnicodeDecodeError"
  "decode [CHR 0xC3] = Inl UnicodeDecodeError"
  "decode [CHR 0xC0, CHR 0x80] = Inl UnicodeDecodeError"
  "decode [CHR 0xED, CHR 0xA0, CHR 0x80] = Inl UnicodeDecodeError"
  "decode [CHR 0xF4, CHR 0x90, CHR 0x80, CHR 0x80] = Inl UnicodeDecodeError"
  by (simp_all add: decode_def utf8.simps continuation_def cong: list.case_cong_weak)

text \<open>
  C8, as the code has it. Until \<^verbatim>\<open>start_ollama\<close> has returned, none of the
  commands is spawned. When it does not return \<open>True\<close> (it returns \<open>False\<close>, or its
  spawn raises), none is spawned at all. When it returns \<open>True\<close>, the commands are run
  in the order of the list, each after its announcement and followed by its standard
  output and its standard error where they are not empty, decoded. A command whose
  process runs, whatever its return code, and whose outputs decode is followed by the
  next command. The first command that cannot be spawned or whose output cannot be
  decoded, the command number \<open>k\<close> counted from 0, ends \<^verbatim>\<open>main\<close> with its
  exception: the spawns made or tried are those of the first \<open>k + 1\<close> commands of the
  list, and none of the commands after them is run. With no such command, all commands
  of the list are run and \<^verbatim>\<open>main\<close> returns. One of the two is the case in every
  world.
\<close>

theorem ollama_commands_after_readiness:
  "extends setup_event w (ready_world w) \<and>
   (readiness w \<noteq> Inr True \<longrightarrow> extends setup_event w (snd (ollama_main w))) \<and>
   (\<forall>k. readiness w = Inr True \<and> k \<le> length commands \<and>
        (\<forall>j<k. raised (answer w j) = None) \<and>
        (k < length commands \<longrightarrow> raised (answer w k) \<noteq> None) \<longrightarrow>
      fst (ollama_main w) =
        (if k < length commands then Inl (the (raised (answer w k))) else Inr ()) \<and>
      trace (snd (ollama_main w)) =
        trace (ready_world w)
          @ commands_trace (ready_world w) (exec_count (ready_world w)) (take (Suc k) commands) \<and>
      executed (commands_trace (ready_world w) (exec_count (ready_world w))
                  (take (Suc k) commands)) = take (Suc k) commands) \<and>
   (\<exists>k\<le>length commands.
      (\<forall>j<k. raised (answer w j) = None) \<and>
      (k < length commands \<longrightarrow> raised (answer w k) \<noteq> None))"
proof -
  let ?v = "stop_existing_ollama w"
  obtain r w1 where s: "start_ollama ?v = (r, w1)" by (cases "start_ollama ?v")
  then have rw: "readiness w = r" "ready_world w = w1"
    by (simp_all add: readiness_def ready_world_def)
  have e1: "extends setup_event w w1"
    using extends_trans [OF setup_stop_existing_ollama [of w] setup_start_ollama [of ?v]] s
    by simp
  have a: "extends setup_event w (snd (ollama_main w))" if "r \<noteq> Inr True"
  proof (cases r)
    case (Inl e)
    with s e1 show ?thesis by (simp add: ollama_main_def)
  next
    case (Inr b)
    with that have "\<not> b" by simp
    have "extends setup_event w1 (print NotStarted w1)" by (rule extends_print) simp
    with e1 have "extends setup_event w (print NotStarted w1)" by (rule extends_trans)
    with s Inr \<open>\<not> b\<close> show ?thesis by (simp add: ollama_main_def)
  qed
  have m: "ollama_main w = run_commands commands w1" if "r = Inr True"
    using s that by (simp add: ollama_main_def run_ollama_commands_def)
  have b: "fst (ollama_main w) =
        (if k < length commands then Inl (the (raised (answer w k))) else Inr ()) \<and>
      trace (snd (ollama_main w)) =
        trace w1 @ commands_trace w1 (exec_count w1) (take (Suc k) commands) \<and>
      executed (commands_trace w1 (exec_count w1) (take (Suc k) commands)) =
        take (Suc k) commands"
    if "r = Inr True" "k \<le> length commands" "\<forall>j<k. raised (answer w j) = None"
      "k < length commands \<longrightarrow> raised (answer w k) \<noteq> None" for k
    using run_commands_result [of k commands w1] that(2-4) m [OF that(1)]
    by (simp add: answer_def rw executed_commands_trace)
  have c: "\<exists>k\<le>length commands. (\<forall>j<k. raised (answer w j) = None) \<and>
      (k < length commands \<longrightarrow> raised (answer w k) \<noteq> None)"
  proof (cases "\<exists>j<length commands. raised (answer w j) \<noteq> None")
    case True
    define k where "k = (LEAST j. j < length commands \<and> raised (answer w j) \<noteq> None)"
    from True have k: "k < length commands \<and> raised (answer w k) \<noteq> None"
      unfolding k_def by (rule LeastI_ex)
    have "raised (answer w j) = None" if "j < k" for j
    proof (rule ccontr)
      assume "raised (answer w j) \<noteq> None"
      with that k have "j < length commands \<and> raised (answer w j) \<noteq> None" by simp
      then have "k \<le> j" unfolding k_def by (rule Least_le)
      with that show False by simp
    qed
    with k show ?thesis by (intro exI [of _ k]) simp
  next
    case False
    then show ?thesis by (intro exI [of _ "length commands"]) simp
  qed
  from e1 a b c show ?thesis unfolding rw by blast
qed

text \<open>
  The second command fails with return code 1: the three after it are run. The second
  command leaves an output that is not UTF-8: \<^verbatim>\<open>main\<close> ends with the exception.
\<close>

theorem ollama_commands_after_readiness_witness:
  "fst (ollama_main undecodable_output_world) = Inl UnicodeDecodeError \<and>
   fst (ollama_main failing_command_world) = Inr () \<and>
   trace (snd (ollama_main failing_command_world)) =
     trace (ready_world failing_command_world) @
     [Print (Executing [''ollama'', ''list'']), Exec [''ollama'', ''list''],
      Print (Output (map of_char ''NAME'')),
      Print (Executing [''ollama'', ''run'', ''mistral'']), Exec [''ollama'', ''run'', ''mistral''],
      Print (Output (map of_char ''Error: pull model manifest'')),
      Print (Executing [''ollama'', ''run'', ''deepseek-coder'']),
      Exec [''ollama'', ''run'', ''deepseek-coder''],
      Print (Executing [''ollama'', ''run'', ''llava'']), Exec [''ollama'', ''run'', ''llava''],
      Print (Executing [''ollama'', ''run'', ''wizard-vicuna-uncensored'']),
      Exec [''ollama'', ''run'', ''wizard-vicuna-uncensored'']]"
proof -
  have r: "readiness failing_command_world = Inr True"
    and c: "exec_count (ready_world failing_command_world) = 3"
    by (simp_all add: ollama_run_defs failing_command_world_def quiet_world_def cong: run_congs)
  have x: "exec_script (ready_world failing_command_world) i =
      exec_script failing_command_world i" for i
    by (simp add: ollama_run_defs failing_command_world_def quiet_world_def cong: run_congs)
  have sc: "exec_script failing_command_world 3 = Exited 0 ''NAME'' []"
    "exec_script failing_command_world 4 = Exited 1 [] ''Error: pull model manifest''"
    "exec_script failing_command_world 5 = Exited 0 [] []"
    "exec_script failing_command_world 6 = Exited 0 [] []"
    "exec_script failing_command_world 7 = Exited 0 [] []"
    by (simp_all add: failing_command_world_def quiet_world_def)
  have d: "decode ''NAME'' = Inr (map of_char ''NAME'')"
    "decode ''Error: pull model manifest'' = Inr (map of_char ''Error: pull model manifest'')"
    by (simp_all add: decode_def utf8.simps)
  have u: "\<not> undecodable ''NAME''" "\<not> undecodable ''Error: pull model manifest''"
    "\<not> undecodable []"
    by (simp_all add: undecodable_def d)
  have h: "\<forall>j<5. raised (answer failing_command_world j) = None"
  proof (intro allI impI)
    fix j :: nat assume "j < 5"
    then consider "j = 0" | "j = 1" | "j = 2" | "j = 3" | "j = 4" by linarith
    then show "raised (answer failing_command_world j) = None"
      by cases (simp_all add: answer_def c x sc u)
  qed
  have l: "length commands = 5" by (simp add: commands_def)
  from ollama_commands_after_readiness [of failing_command_world] r h l
  have "fst (ollama_main failing_command_world) = Inr () \<and>
      trace (snd (ollama_main failing_command_world)) =
        trace (ready_world failing_command_world)
          @ commands_trace (ready_world failing_command_world)
              (exec_count (ready_world failing_command_world)) (take (Suc 5) commands)"
    by (metis (no_types, lifting) less_irrefl order_refl)
  then have 1: "fst (ollama_main failing_command_world) = Inr () \<and>
      trace (snd (ollama_main failing_command_world)) =
        trace (ready_world failing_command_world) @
        [Print (Executing [''ollama'', ''list'']), Exec [''ollama'', ''list''],
         Print (Output (map of_char ''NAME'')),
         Print (Executing [''ollama'', ''run'', ''mistral'']),
         Exec [''ollama'', ''run'', ''mistral''],
         Print (Output (map of_char ''Error: pull model manifest'')),
         Print (Executing [''ollama'', ''run'', ''deepseek-coder'']),
         Exec [''ollama'', ''run'', ''deepseek-coder''],
         Print (Executing [''ollama'', ''run'', ''llava'']), Exec [''ollama'', ''run'', ''llava''],
         Print (Executing [''ollama'', ''run'', ''wizard-vicuna-uncensored'']),
         Exec [''ollama'', ''run'', ''wizard-vicuna-uncensored'']]"
    unfolding c by (simp add: commands_def x sc printed_def undecodable_def d)
  have r': "readiness undecodable_output_world = Inr True"
    and c': "exec_count (ready_world undecodable_output_world) = 3"
    by (simp_all add: ollama_run_defs undecodable_output_world_def quiet_world_def
        cong: run_congs)
  have x': "exec_script (ready_world undecodable_output_world) i =
      exec_script undecodable_output_world i" for i
    by (simp add: ollama_run_defs undecodable_output_world_def quiet_world_def cong: run_congs)
  have sc': "exec_script undecodable_output_world 3 = Exited 0 ''NAME'' []"
    "exec_script undecodable_output_world 4 = Exited 1 [] [CHR 0xFF]"
    by (simp_all add: undecodable_output_world_def quiet_world_def)
  have u': "undecodable [CHR 0xFF]"
    by (simp add: undecodable_def decode_examples)
  have h0: "\<forall>j<1. raised (answer undecodable_output_world j) = None"
    by (simp add: answer_def c' x' sc' u)
  have h1: "raised (answer undecodable_output_world 1) = Some UnicodeDecodeError"
    by (simp add: answer_def c' x' sc' u u')
  from ollama_commands_after_readiness [of undecodable_output_world] r' h0 h1 l
  have "fst (ollama_main undecodable_output_world) =
      (if (1::nat) < 5 then Inl (the (raised (answer undecodable_output_world 1))) else Inr ())"
    by (metis (no_types, lifting) one_le_numeral option.distinct(1))
  with h1 have 2: "fst (ollama_main undecodable_output_world) = Inl UnicodeDecodeError"
    by simp
  from 1 2 show ?thesis by simp
qed

text \<open>
  C8 as the claim states it fails for a command that cannot be spawned: the server is
  ready, \<^verbatim>\<open>ollama list\<close> runs, the spawn of \<^verbatim>\<open>ollama run mistral\<close> raises, the
  exception leaves \<^verbatim>\<open>main\<close>, and none of the three commands after it is run.
\<close>

theorem ollama_main_stops_at_failed_spawn:
  "readiness spawn_failure_world = Inr True \<and>
   fst (ollama_main spawn_failure_world) = Inl OSError \<and>
   trace (snd (ollama_main spawn_failure_world)) =
     [Exec [''systemctl'', ''is-active'', ''--quiet'', ''ollama''],
      Exec [''pkill'', ''-f'', ''ollama serve''], Print KilledServe, Sleep 2,
      Print CheckingPort, PortCheck 11434, PortCheck 11434, Print PortFree,
      Print StartingOllama, Shell ''nohup ollama serve > ollama_start.log 2>&1 &'',
      Print ServeIssued, HttpGet ''http://localhost:11434/'', Print (ServerReady 11434),
      Print (Executing [''ollama'', ''list'']), Exec [''ollama'', ''list''],
      Print (Output (map of_char ''NAME'')),
      Print (Executing [''ollama'', ''run'', ''mistral'']),
      Exec [''ollama'', ''run'', ''mistral'']]"
  by (simp add: ollama_run_defs command_defs spawn_failure_world_def quiet_world_def
      cong: command_congs)

text \<open>
  The same for a command whose output is not UTF-8: \<^verbatim>\<open>ollama run mistral\<close> runs
  and leaves the byte \<open>FF\<close> on its standard error; \<^verbatim>\<open>decode\<close> raises, and none
  of the three commands after it is run.
\<close>

theorem ollama_main_stops_at_undecodable_output:
  "readiness undecodable_output_world = Inr True \<and>
   fst (ollama_main undecodable_output_world) = Inl UnicodeDecodeError \<and>
   trace (snd (ollama_main undecodable_output_world)) =
     [Exec [''systemctl'', ''is-active'', ''--quiet'', ''ollama''],
      Exec [''pkill'', ''-f'', ''ollama serve''], Print KilledServe, Sleep 2,
      Print CheckingPort, PortCheck 11434, PortCheck 11434, Print PortFree,
      Print StartingOllama, Shell ''nohup ollama serve > ollama_start.log 2>&1 &'',
      Print ServeIssued, HttpGet ''http://localhost:11434/'', Print (ServerReady 11434),
      Print (Executing [''ollama'', ''list'']), Exec [''ollama'', ''list''],
      Print (Output (map of_char ''NAME'')),
      Print (Executing [''ollama'', ''run'', ''mistral'']),
      Exec [''ollama'', ''run'', ''mistral'']]"
  by (simp add: ollama_run_defs command_defs undecodable_output_world_def quiet_world_def
      cong: command_congs)

section \<open>The end of the supervision loop\<close>

lemma supervise_rounds_front:
  "supervise_rounds (Suc n) url w =
     (case supervise_step url w of
        None \<Rightarrow> None
      | Some (continue, w1) \<Rightarrow>
          if continue then supervise_rounds n url w1
          else if n = 0 then Some (False, w1) else None)"
proof (induction n)
  case 0
  show ?case by (simp split: option.splits prod.splits)
next
  case (Suc n)
  have "supervise_rounds (Suc (Suc n)) url w =
      (case supervise_rounds (Suc n) url w of
         None \<Rightarrow> None
       | Some (continue, w1) \<Rightarrow> if continue then supervise_step url w1 else None)"
    by simp
  also have "\<dots> =
      (case supervise_step url w of
         None \<Rightarrow> None
       | Some (continue, w1) \<Rightarrow>
           if continue then supervise_rounds (Suc n) url w1
           else if Suc n = 0 then Some (False, w1) else None)"
    unfolding Suc.IH by (auto split: option.splits prod.splits)
  finally show ?case .
qed

lemma supervise_of_rounds:
  "supervise_rounds n url w = Some (False, w') \<Longrightarrow> supervise url w = Some w'"
proof (induction n arbitrary: w)
  case 0
  then show ?case by simp
next
  case (Suc n)
  from Suc.prems obtain c w1 where s: "supervise_step url w = Some (c, w1)"
    unfolding supervise_rounds_front by (auto split: option.splits)
  show ?case
  proof (cases c)
    case True
    with Suc.prems s have "supervise_rounds n url w1 = Some (False, w')"
      unfolding supervise_rounds_front by simp
    from Suc.IH [OF this] s True show ?thesis
      by (subst supervise.simps) simp
  next
    case False
    with Suc.prems s have "w' = w1"
      unfolding supervise_rounds_front by (simp split: if_splits)
    with s False show ?thesis by (subst supervise.simps) simp
  qed
qed

lemma rounds_of_supervise:
  assumes "supervise url w = Some w'"
  shows "\<exists>n. supervise_rounds n url w = Some (False, w')"
proof (rule supervise.raw_induct
    [where P = "\<lambda>url w w'. \<exists>n. supervise_rounds n url w = Some (False, w')", OF _ assms])
  fix loop url w w'
  assume IH: "\<And>url w w'. loop url w = Some w' \<Longrightarrow>
      \<exists>n. supervise_rounds n url w = Some (False, w')"
    and eq: "(case supervise_step url w of
               None \<Rightarrow> None
             | Some (continue, w1) \<Rightarrow> if continue then loop url w1 else Some w1) = Some w'"
  from eq obtain c w1 where s: "supervise_step url w = Some (c, w1)"
    by (auto split: option.splits)
  show "\<exists>n. supervise_rounds n url w = Some (False, w')"
  proof (cases c)
    case True
    with eq s have "loop url w1 = Some w'" by simp
    from IH [OF this] obtain n where "supervise_rounds n url w1 = Some (False, w')" ..
    with s True have "supervise_rounds (Suc n) url w = Some (False, w')"
      unfolding supervise_rounds_front by simp
    then show ?thesis ..
  next
    case False
    with eq s have "w' = w1" by simp
    with s False have "supervise_rounds (Suc 0) url w = Some (False, w')"
      unfolding supervise_rounds_front by simp
    then show ?thesis ..
  qed
qed

lemma supervise_step_break:
  "supervise_step url w = Some (False, w') \<longleftrightarrow>
     (\<exists>w1 w3. ngrok_watchdog url w = Some (False, w1) \<and>
        create_ngrok_tunnel (ngrok_disconnect url (print Reconnecting w1)) = (None, w3) \<and>
        w' = print CouldNotRecreate w3)"
  by (auto simp: supervise_step_def Let_def split: option.splits prod.splits if_splits)

text \<open>
  The supervision loop ends exactly when some round is left by \<^verbatim>\<open>break\<close>, and a
  round is left by \<^verbatim>\<open>break\<close> exactly when the watchdog has returned and the
  \<^verbatim>\<open>create_ngrok_tunnel\<close> that follows the disconnect returns \<open>None\<close>.
\<close>

theorem supervise_ends_when_reconnection_fails:
  "(supervise url w = Some w' \<longleftrightarrow> (\<exists>n. supervise_rounds n url w = Some (False, w'))) \<and>
   (supervise_step url v = Some (False, v') \<longleftrightarrow>
      (\<exists>v1 v3. ngrok_watchdog url v = Some (False, v1) \<and>
         create_ngrok_tunnel (ngrok_disconnect url (print Reconnecting v1)) = (None, v3) \<and>
         v' = print CouldNotRecreate v3))"
  using supervise_of_rounds rounds_of_supervise supervise_step_break by blast

end
